theory Spec2Isabelle
  imports Complex_Main "HOL-Library.AList"
begin

section \<open>The layered activity recorder (record\_addon.py)\<close>

text \<open>
  A shallow embedding of the class \<open>LayeredRecorder\<close>. The recorder object is a record
  that every handler takes and returns updated. What the handlers read from the world
  outside the class is an argument of the model:
  \<^item> every \<open>datetime.now()\<close> is an argument (one reading for each call the source makes),
    a count of microseconds;
  \<^item> the flow object handed in by the proxy is a record of the attributes the source reads,
    and an attribute whose read can raise holds either the exception or the value;
  \<^item> the outcome of every file write during \<open>done\<close> is given by an argument that maps
    the path to what happens there;
  \<^item> \<open>bytes.decode('utf-8', errors='replace')\<close> is an argument of the streaming handler.
  A handler that can raise returns the exception or \<open>()\<close> together with the recorder as
  the call leaves it.
\<close>

subsection \<open>Floating-point durations\<close>

text \<open>
  \<open>(timestamp - start).total_seconds() * 1000\<close> is computed in double precision: the
  difference of the two instants is an exact number of microseconds, \<open>total_seconds()\<close>
  divides it by \<open>10**6\<close> and rounds the quotient to the nearest double, and the product
  with 1000 is rounded again. \<open>float_round\<close> is rounding to the nearest double, ties to
  even, with the 53-bit significand and the least exponent of the format; a double is
  held as the rational number it denotes. Results beyond the largest finite double do not
  occur for differences of two \<open>datetime\<close> values and are not modelled.
\<close>

type_synonym time = int

function bitlen :: "int \<Rightarrow> int" where
  "bitlen n = (if n \<le> 0 then 0 else 1 + bitlen (n div 2))"
  by pat_completeness auto
termination
  by (relation "measure nat") auto

declare bitlen.simps [simp del]

definition round_half_even :: "rat \<Rightarrow> int" where
  "round_half_even r =
     (let f = \<lfloor>r\<rfloor>; d = r - of_int f
      in if d < 1 / 2 then f else if 1 / 2 < d then f + 1 else if even f then f else f + 1)"

text \<open>For a positive \<open>x\<close>, the integer \<open>k\<close> with \<open>2 powi k \<le> x < 2 powi (k + 1)\<close>.\<close>

definition ilog2 :: "rat \<Rightarrow> int" where
  "ilog2 x =
     (let (p, q) = quotient_of x;
          k = bitlen p - bitlen q
      in if 2 powi k \<le> x then k else k - 1)"

definition emin :: int where
  "emin = - 1074"

definition float_round :: "rat \<Rightarrow> rat" where
  "float_round x =
     (if x = 0 then 0
      else (let a = \<bar>x\<bar>;
                e = max (ilog2 a - 52) emin;
                m = round_half_even (a / 2 powi e)
            in sgn x * of_int m * 2 powi e))"

definition duration_of :: "time \<Rightarrow> time \<Rightarrow> rat" where
  "duration_of timestamp start =
     float_round (float_round (of_int (timestamp - start) / 1000000) * 1000)"

subsection \<open>Values written to the artifacts\<close>

type_synonym bytes = string

text \<open>
  The values handed to \<open>json.dump\<close>. \<open>JTime t\<close> stands for the string
  \<open>t.isoformat()\<close>; \<open>JFloat\<close> holds a Python float as the rational it denotes. A Python
  \<open>dict\<close> keeps its keys in insertion order, so it is an association list.
\<close>

datatype json =
    JNull
  | JInt int
  | JFloat rat
  | JStr string
  | JTime time
  | JList "json list"
  | JDict "(string \<times> json) list"

type_synonym entry = "(string \<times> json) list"

subsection \<open>The flow as the handlers see it\<close>

text \<open>
  The exceptions of the model: a failed \<open>open\<close> or \<open>json.dump\<close> (with the text of the
  exception), a key missing from an entry of the generic log, and the \<open>ValueError\<close> that
  reading the \<open>content\<close> of a message raises when its body cannot be decoded.
\<close>

datatype error = OSError string | KeyError string | ValueError string

text \<open>
  \<open>content\<close> is what reading the attribute gives: \<open>Inl e\<close> when the read raises \<open>e\<close>,
  \<open>Inr None\<close> for \<open>None\<close>, \<open>Inr (Some b)\<close> for the bytes \<open>b\<close>. \<open>msg_text\<close> is \<open>None\<close>
  where reading \<open>.text\<close> does not give a string to slice: the bare \<open>except\<close> of the
  source catches that. \<open>headers_dict\<close> is the value of \<open>dict(m.headers)\<close> and
  \<open>headers_len\<close> the value of \<open>len(m.headers)\<close>.
\<close>

record message =
  headers_dict :: "(string \<times> string) list"
  headers_len :: nat
  http_version :: string
  content :: "error + bytes option"
  msg_text :: "string option"

record http_request = message +
  req_method :: string
  url :: string

record http_response = message +
  status_code :: int

record ws_message =
  from_client :: bool
  ws_content :: bytes

record http_flow =
  flow_id :: string
  flow_request :: http_request
  flow_response :: http_response
  flow_messages :: "ws_message list"

subsection \<open>The diagnostic log\<close>

datatype log_level = DEBUG | INFO | ERROR

text \<open>One constructor for each format string the source passes to the logger.\<close>

datatype log_msg =
    Initialized int
  | SessionDirectory string
  | LoadedSuccessfully
  | LevelUpdated int
  | RequestLogged string string
  | ResponseLogged int string
  | WebSocketLogged string
  | WebSocketEnded string
  | SavingRecordedData
  | NetworkActivitySaved string
  | TotalCounts nat nat
  | PerformanceSaved string
  | PerformanceEntries nat
  | WebSocketSaved string
  | WebSocketEntries nat
  | SummarySaved string
  | CompletedSuccessfully
  | ErrorSaving error

subsection \<open>The recorder\<close>

text \<open>
  The attributes of the object. \<open>har_data\<close> is left out: it is set to \<open>None\<close> by the
  constructor and never read or written again. \<open>session_name\<close> is the last component of
  \<open>session_dir\<close>, and \<open>logger\<close> holds the lines sent to \<open>recorder.log\<close>, oldest first.
\<close>

record recorder =
  record_level :: int
  session_name :: string
  network_log :: "entry list"
  performance_metrics :: "(string \<times> entry) list"
  websocket_messages :: "entry list"
  request_timestamps :: "(string \<times> time) list"
  logger :: "(log_level \<times> log_msg) list"

definition log_line :: "log_level \<Rightarrow> log_msg \<Rightarrow> recorder \<Rightarrow> recorder" where
  "log_line lv m s = s\<lparr>logger := logger s @ [(lv, m)]\<rparr>"

text \<open>\<open>str(self.session_dir / name)\<close>; \<open>Path\<close> drops the leading \<open>./\<close>.\<close>

definition session_path :: "recorder \<Rightarrow> string \<Rightarrow> string" where
  "session_path s name = ''activity_sessions/'' @ session_name s @ ''/'' @ name"

definition init :: "int \<Rightarrow> string \<Rightarrow> recorder" where
  "init lvl name =
     (let s = \<lparr>record_level = lvl, session_name = name, network_log = [],
               performance_metrics = [], websocket_messages = [],
               request_timestamps = [], logger = []\<rparr>
      in log_line INFO (SessionDirectory (''activity_sessions/'' @ name))
           (log_line INFO (Initialized lvl) s))"

definition load :: "recorder \<Rightarrow> recorder" where
  "load s = log_line INFO LoadedSuccessfully s"

text \<open>
  \<open>updated\<close> is the set of option names that changed, \<open>opt\<close> the value of
  \<open>int(ctx.options.record_level)\<close>.
\<close>

definition configure :: "string set \<Rightarrow> int \<Rightarrow> recorder \<Rightarrow> recorder" where
  "configure updated opt s =
     (if ''record_level'' \<in> updated
      then log_line INFO (LevelUpdated opt) (s\<lparr>record_level := opt\<rparr>)
      else s)"

text \<open>
  The condition \<open>self.record_level >= 2 and hasattr(m, 'content') and m.content\<close> of both
  handlers. \<open>and\<close> stops at the first false operand, so below level 2 the content is not
  read. \<open>hasattr\<close> reads the attribute and lets every exception but \<open>AttributeError\<close>
  through, so a read that raises ends the handler.
\<close>

definition truthy :: "bytes option \<Rightarrow> bool" where
  "truthy c = (case c of None \<Rightarrow> False | Some b \<Rightarrow> b \<noteq> [])"

definition content_guard :: "int \<Rightarrow> error + bytes option \<Rightarrow> error + bool" where
  "content_guard lvl c =
     (if lvl \<ge> 2
      then (case c of Inl e \<Rightarrow> Inl e | Inr b \<Rightarrow> Inr (truthy b))
      else Inr False)"

text \<open>The bytes of a content that has been read; no bytes for \<open>None\<close>.\<close>

definition content_bytes :: "error + bytes option \<Rightarrow> bytes" where
  "content_bytes c = (case c of Inr (Some b) \<Rightarrow> b | _ \<Rightarrow> [])"

text \<open>The two keys of the level 2 block, added when the guard holds.\<close>

definition body_fields :: "bool \<Rightarrow> error + bytes option \<Rightarrow> string option \<Rightarrow> entry" where
  "body_fields g c t =
     (if g
      then [(''body_size'', JInt (int (length (content_bytes c)))),
            (''body_preview'',
               (case t of Some txt \<Rightarrow> JStr (take 500 txt) | None \<Rightarrow> JStr ''[binary data]''))]
      else [])"

definition headers_json :: "(string \<times> string) list \<Rightarrow> json" where
  "headers_json hs = JDict (map (\<lambda>(k, v). (k, JStr v)) hs)"

text \<open>
  The timestamp is stored before the content is read, so a call that raises leaves the
  stamp behind and appends nothing.
\<close>

definition requestheaders ::
  "time \<Rightarrow> http_flow \<Rightarrow> recorder \<Rightarrow> (error + unit) \<times> recorder"
where
  "requestheaders timestamp flow s =
     (let rq = flow_request flow;
          s1 = s\<lparr>request_timestamps :=
                  AList.update (flow_id flow) timestamp (request_timestamps s)\<rparr>
      in case content_guard (record_level s) (content rq) of
           Inl e \<Rightarrow> (Inl e, s1)
         | Inr g \<Rightarrow>
             (let request_entry =
                    [(''timestamp'', JTime timestamp),
                     (''type'', JStr ''request''),
                     (''method'', JStr (req_method rq)),
                     (''url'', JStr (url rq)),
                     (''headers'', headers_json (headers_dict rq)),
                     (''http_version'', JStr (http_version rq)),
                     (''flow_id'', JStr (flow_id flow))]
                    @ body_fields g (content rq) (msg_text rq);
                  s2 = s1\<lparr>network_log := network_log s1 @ [request_entry]\<rparr>
              in (Inr (), log_line DEBUG (RequestLogged (req_method rq) (url rq)) s2)))"

definition duration_ms :: "(string \<times> time) list \<Rightarrow> string \<Rightarrow> time \<Rightarrow> json" where
  "duration_ms ts fid timestamp =
     (case map_of ts fid of
        None \<Rightarrow> JNull
      | Some start \<Rightarrow> JFloat (duration_of timestamp start))"

text \<open>
  The record of the level 3 block. It is built only after the guard of the level 2 block
  has read the content without raising.
\<close>

definition performance_record :: "time \<Rightarrow> json \<Rightarrow> http_flow \<Rightarrow> entry" where
  "performance_record timestamp dur flow =
     [(''status'', JInt (status_code (flow_response flow))),
      (''response_time_ms'', dur),
      (''content_size_bytes'',
         JInt (if content_bytes (content (flow_response flow)) \<noteq> []
               then int (length (content_bytes (content (flow_response flow)))) else 0)),
      (''headers_count'', JInt (int (headers_len (flow_response flow)))),
      (''request_method'', JStr (req_method (flow_request flow))),
      (''timestamp'', JTime timestamp)]"

text \<open>
  Nothing is stored before the content is read, so a call that raises leaves the
  recorder as it was.
\<close>

definition response ::
  "time \<Rightarrow> http_flow \<Rightarrow> recorder \<Rightarrow> (error + unit) \<times> recorder"
where
  "response timestamp flow s =
     (let rq = flow_request flow;
          rs = flow_response flow;
          dur = duration_ms (request_timestamps s) (flow_id flow) timestamp
      in case content_guard (record_level s) (content rs) of
           Inl e \<Rightarrow> (Inl e, s)
         | Inr g \<Rightarrow>
             (let response_entry =
                    [(''timestamp'', JTime timestamp),
                     (''type'', JStr ''response''),
                     (''status_code'', JInt (status_code rs)),
                     (''headers'', headers_json (headers_dict rs)),
                     (''http_version'', JStr (http_version rs)),
                     (''duration_ms'', dur),
                     (''url'', JStr (url rq)),
                     (''flow_id'', JStr (flow_id flow))]
                    @ body_fields g (content rs) (msg_text rs);
                  s1 = (if record_level s \<ge> 3
                        then s\<lparr>performance_metrics :=
                                AList.update (url rq) (performance_record timestamp dur flow)
                                  (performance_metrics s)\<rparr>
                        else s);
                  s2 = s1\<lparr>network_log := network_log s1 @ [response_entry]\<rparr>
              in (Inr (), log_line DEBUG (ResponseLogged (status_code rs) (url rq)) s2)))"

text \<open>
  The loop over \<open>flow.messages\<close>. \<open>nows i\<close> is the clock reading of the \<open>i\<close>-th
  iteration and \<open>dec\<close> is \<open>bytes.decode('utf-8', errors='replace')\<close>.
\<close>

definition direction :: "ws_message \<Rightarrow> string" where
  "direction m = (if from_client m then ''client_to_server'' else ''server_to_client'')"

definition ws_entry :: "(bytes \<Rightarrow> string) \<Rightarrow> time \<Rightarrow> http_flow \<Rightarrow> ws_message \<Rightarrow> entry" where
  "ws_entry dec now flow m =
     [(''timestamp'', JTime now),
      (''type'', JStr ''websocket''),
      (''direction'', JStr (direction m)),
      (''message'', JStr (take 1000 (dec (ws_content m)))),
      (''flow_id'', JStr (flow_id flow)),
      (''url'', JStr (url (flow_request flow)))]"

fun ws_loop ::
  "(bytes \<Rightarrow> string) \<Rightarrow> (nat \<Rightarrow> time) \<Rightarrow> http_flow \<Rightarrow> nat \<Rightarrow> ws_message list \<Rightarrow> recorder \<Rightarrow> recorder"
where
  "ws_loop dec nows flow i [] s = s"
| "ws_loop dec nows flow i (m # ms) s =
     ws_loop dec nows flow (Suc i) ms
       (log_line DEBUG (WebSocketLogged (direction m))
          (s\<lparr>websocket_messages := websocket_messages s @ [ws_entry dec (nows i) flow m]\<rparr>))"

definition websocket_message ::
  "(bytes \<Rightarrow> string) \<Rightarrow> (nat \<Rightarrow> time) \<Rightarrow> http_flow \<Rightarrow> recorder \<Rightarrow> recorder"
where
  "websocket_message dec nows flow s =
     (if record_level s \<ge> 4 then ws_loop dec nows flow 0 (flow_messages flow) s else s)"

definition websocket_end :: "http_flow \<Rightarrow> recorder \<Rightarrow> recorder" where
  "websocket_end flow s =
     (if record_level s \<ge> 4
      then log_line INFO (WebSocketEnded (url (flow_request flow))) s
      else s)"

subsection \<open>Persistence\<close>

text \<open>
  The session directory is a map from paths to files; a file holds the value that was
  dumped into it. For each path, \<open>io\<close> says what a write to it does during this call:
  it succeeds, \<open>open\<close> raises (the file is left as it was), or \<open>json.dump\<close> raises after
  \<open>open\<close> has emptied the file (an incomplete document is left behind).
\<close>

datatype artifact = Whole json | Truncated

datatype io_outcome = IoOk | OpenFails string | DumpFails string

type_synonym filesystem = "string \<rightharpoonup> artifact"

definition write_file ::
  "(string \<Rightarrow> io_outcome) \<Rightarrow> string \<Rightarrow> json \<Rightarrow> filesystem \<Rightarrow> error option \<times> filesystem"
where
  "write_file io p v fs =
     (case io p of
        IoOk \<Rightarrow> (None, fs(p \<mapsto> Whole v))
      | OpenFails m \<Rightarrow> (Some (OSError m), fs)
      | DumpFails m \<Rightarrow> (Some (OSError m), fs(p \<mapsto> Truncated)))"

text \<open>
  \<open>len([x for x in self.network_log if x['type'] == t])\<close>: the subscript raises
  \<open>KeyError\<close> at the first entry without the key.
\<close>

fun count_type :: "string \<Rightarrow> entry list \<Rightarrow> error + nat" where
  "count_type t [] = Inr 0"
| "count_type t (x # xs) =
     (case map_of x ''type'' of
        None \<Rightarrow> Inl (KeyError ''type'')
      | Some v \<Rightarrow>
          (case count_type t xs of
             Inl e \<Rightarrow> Inl e
           | Inr n \<Rightarrow> Inr (if v = JStr t then Suc n else n)))"

text \<open>\<open>self.network_log[0]["timestamp"] if self.network_log else None\<close>\<close>

definition start_time :: "entry list \<Rightarrow> error + json" where
  "start_time nl =
     (case nl of
        [] \<Rightarrow> Inr JNull
      | x # _ \<Rightarrow> (case map_of x ''timestamp'' of
                    None \<Rightarrow> Inl (KeyError ''timestamp'')
                  | Some v \<Rightarrow> Inr v))"

text \<open>The \<open>except\<close> clause: the error goes to the diagnostic log and is raised again.\<close>

definition failed ::
  "error \<Rightarrow> filesystem \<Rightarrow> recorder \<Rightarrow> (error + unit) \<times> filesystem \<times> recorder"
where
  "failed e fs s = (Inl e, fs, log_line ERROR (ErrorSaving e) s)"

definition save_performance ::
  "(string \<Rightarrow> io_outcome) \<Rightarrow> filesystem \<Rightarrow> recorder \<Rightarrow> error option \<times> filesystem \<times> recorder"
where
  "save_performance io fs s =
     (if performance_metrics s \<noteq> []
      then (let metrics_file = session_path s ''performance_metrics.json''
            in case write_file io metrics_file
                      (JDict (map (\<lambda>(k, v). (k, JDict v)) (performance_metrics s))) fs of
                 (Some e, fs') \<Rightarrow> (Some e, fs', s)
               | (None, fs') \<Rightarrow>
                   (None, fs',
                    log_line INFO (PerformanceEntries (length (performance_metrics s)))
                      (log_line INFO (PerformanceSaved metrics_file) s)))
      else (None, fs, s))"

definition save_websocket ::
  "(string \<Rightarrow> io_outcome) \<Rightarrow> filesystem \<Rightarrow> recorder \<Rightarrow> error option \<times> filesystem \<times> recorder"
where
  "save_websocket io fs s =
     (if websocket_messages s \<noteq> []
      then (let ws_file = session_path s ''websocket_messages.json''
            in case write_file io ws_file (JList (map JDict (websocket_messages s))) fs of
                 (Some e, fs') \<Rightarrow> (Some e, fs', s)
               | (None, fs') \<Rightarrow>
                   (None, fs',
                    log_line INFO (WebSocketEntries (length (websocket_messages s)))
                      (log_line INFO (WebSocketSaved ws_file) s)))
      else (None, fs, s))"

definition summary :: "time \<Rightarrow> recorder \<Rightarrow> json \<Rightarrow> nat \<Rightarrow> nat \<Rightarrow> json" where
  "summary now s start request_count response_count =
     JDict
       [(''session_id'', JStr (session_name s)),
        (''record_level'', JInt (record_level s)),
        (''start_time'', start),
        (''end_time'', JTime now),
        (''total_requests'', JInt (int request_count)),
        (''total_responses'', JInt (int response_count)),
        (''performance_metrics_count'', JInt (int (length (performance_metrics s)))),
        (''websocket_messages_count'', JInt (int (length (websocket_messages s)))),
        (''files'',
           JDict
             [(''network_activity'', JStr (session_path s ''network_activity.json'')),
              (''performance_metrics'',
                 (if performance_metrics s \<noteq> []
                  then JStr (session_path s ''performance_metrics.json'') else JNull)),
              (''websocket_messages'',
                 (if websocket_messages s \<noteq> []
                  then JStr (session_path s ''websocket_messages.json'') else JNull)),
              (''recorder_log'', JStr (session_path s ''recorder.log''))])]"

text \<open>
  \<open>done\<close>: the whole body is one \<open>try\<close> block, so the first exception ends it and
  reaches the \<open>except\<close> clause. \<open>now\<close> is the clock reading taken for \<open>end_time\<close>.
\<close>

definition recorder_done ::
  "time \<Rightarrow> (string \<Rightarrow> io_outcome) \<Rightarrow> filesystem \<Rightarrow> recorder
     \<Rightarrow> (error + unit) \<times> filesystem \<times> recorder"
where
  "recorder_done now io fs s =
     (let s0 = log_line INFO SavingRecordedData s;
          network_file = session_path s ''network_activity.json''
      in case write_file io network_file (JList (map JDict (network_log s))) fs of
           (Some e, fs1) \<Rightarrow> failed e fs1 s0
         | (None, fs1) \<Rightarrow>
      (let s1 = log_line INFO (NetworkActivitySaved network_file) s0
       in case count_type ''request'' (network_log s) of
            Inl e \<Rightarrow> failed e fs1 s1
          | Inr request_count \<Rightarrow>
       (case count_type ''response'' (network_log s) of
            Inl e \<Rightarrow> failed e fs1 s1
          | Inr response_count \<Rightarrow>
       (let s2 = log_line INFO (TotalCounts request_count response_count) s1
        in case save_performance io fs1 s2 of
             (Some e, fs2, s3) \<Rightarrow> failed e fs2 s3
           | (None, fs2, s3) \<Rightarrow>
        (case save_websocket io fs2 s3 of
             (Some e, fs3, s4) \<Rightarrow> failed e fs3 s4
           | (None, fs3, s4) \<Rightarrow>
        (case start_time (network_log s) of
             Inl e \<Rightarrow> failed e fs3 s4
           | Inr start \<Rightarrow>
        (let summary_file = session_path s ''session_summary.json''
         in case write_file io summary_file
                   (summary now s start request_count response_count) fs3 of
              (Some e, fs4) \<Rightarrow> failed e fs4 s4
            | (None, fs4) \<Rightarrow>
                (Inr (), fs4,
                 log_line INFO CompletedSuccessfully
                   (log_line INFO (SummarySaved summary_file) s4)))))))))"

subsection \<open>Sessions\<close>

text \<open>
  The proxy drives the recorder with a sequence of hook calls; each event carries the
  clock readings its handler takes. A call that raises does not end the session: the
  next event finds the recorder as the call left it.
\<close>

datatype event =
    Configure "string set" int
  | RequestHeaders time http_flow
  | Response time http_flow
  | WebsocketMessage "nat \<Rightarrow> time" http_flow
  | WebsocketEnd http_flow

fun step :: "(bytes \<Rightarrow> string) \<Rightarrow> event \<Rightarrow> recorder \<Rightarrow> recorder" where
  "step dec (Configure updated opt) s = configure updated opt s"
| "step dec (RequestHeaders t flow) s = snd (requestheaders t flow s)"
| "step dec (Response t flow) s = snd (response t flow s)"
| "step dec (WebsocketMessage nows flow) s = websocket_message dec nows flow s"
| "step dec (WebsocketEnd flow) s = websocket_end flow s"

fun run :: "(bytes \<Rightarrow> string) \<Rightarrow> recorder \<Rightarrow> event list \<Rightarrow> recorder" where
  "run dec s [] = s"
| "run dec s (e # es) = run dec (step dec e s) es"

subsection \<open>Reading the artifacts and the sessions\<close>

definition get_field :: "string \<Rightarrow> json \<Rightarrow> json option" where
  "get_field k j = (case j of JDict kvs \<Rightarrow> map_of kvs k | _ \<Rightarrow> None)"

definition is_kind :: "string \<Rightarrow> entry \<Rightarrow> bool" where
  "is_kind t x = (map_of x ''type'' = Some (JStr t))"

definition no_body_fields :: "entry \<Rightarrow> bool" where
  "no_body_fields x = (map_of x ''body_size'' = None \<and> map_of x ''body_preview'' = None)"

text \<open>The level in force is below \<open>n\<close> whenever an event of the session is processed.\<close>

fun levels_below :: "(bytes \<Rightarrow> string) \<Rightarrow> int \<Rightarrow> recorder \<Rightarrow> event list \<Rightarrow> bool" where
  "levels_below dec n s [] = True"
| "levels_below dec n s (e # es) = (record_level s < n \<and> levels_below dec n (step dec e s) es)"

text \<open>
  Some response to the URL \<open>u\<close> is recorded (its handler returns normally) while the
  level in force is at least 3; and the same for a response to any URL.
\<close>

fun gated_write :: "(bytes \<Rightarrow> string) \<Rightarrow> string \<Rightarrow> recorder \<Rightarrow> event list \<Rightarrow> bool" where
  "gated_write dec u s [] = False"
| "gated_write dec u s (Response t flow # es) =
     ((url (flow_request flow) = u \<and> record_level s \<ge> 3 \<and> fst (response t flow s) = Inr ())
      \<or> gated_write dec u (snd (response t flow s)) es)"
| "gated_write dec u s (e # es) = gated_write dec u (step dec e s) es"

fun gated_response :: "(bytes \<Rightarrow> string) \<Rightarrow> recorder \<Rightarrow> event list \<Rightarrow> bool" where
  "gated_response dec s [] = False"
| "gated_response dec s (Response t flow # es) =
     ((record_level s \<ge> 3 \<and> fst (response t flow s) = Inr ())
      \<or> gated_response dec (snd (response t flow s)) es)"
| "gated_response dec s (e # es) = gated_response dec (step dec e s) es"

text \<open>The URLs of the response events of a session.\<close>

fun response_urls :: "event list \<Rightarrow> string list" where
  "response_urls [] = []"
| "response_urls (Response t flow # es) = url (flow_request flow) # response_urls es"
| "response_urls (e # es) = response_urls es"

text \<open>Whether an event stamps a flow identifier.\<close>

fun stamps :: "string \<Rightarrow> event \<Rightarrow> bool" where
  "stamps fid (RequestHeaders t flow) = (flow_id flow = fid)"
| "stamps fid e = False"

text \<open>
  What a finalize that meets no exception leaves in the session directory: the generic
  log, the performance mapping and the stream log when they are not empty, and the summary.
\<close>

definition saved :: "filesystem \<Rightarrow> recorder \<Rightarrow> json \<Rightarrow> filesystem" where
  "saved fs s summ =
     (let fs1 = fs(session_path s ''network_activity.json'' \<mapsto>
                     Whole (JList (map JDict (network_log s))));
          fs2 = (if performance_metrics s \<noteq> []
                 then fs1(session_path s ''performance_metrics.json'' \<mapsto>
                            Whole (JDict (map (\<lambda>(k, v). (k, JDict v)) (performance_metrics s))))
                 else fs1);
          fs3 = (if websocket_messages s \<noteq> []
                 then fs2(session_path s ''websocket_messages.json'' \<mapsto>
                            Whole (JList (map JDict (websocket_messages s))))
                 else fs2)
      in fs3(session_path s ''session_summary.json'' \<mapsto> Whole summ))"

text \<open>
  The writes of a finalize, in the order of the source, and writing a list of files one
  after the other until a write fails: the files after the failing one are not touched.
\<close>

definition planned_writes ::
  "time \<Rightarrow> recorder \<Rightarrow> json \<Rightarrow> nat \<Rightarrow> nat \<Rightarrow> (string \<times> json) list"
where
  "planned_writes now s start request_count response_count =
     [(session_path s ''network_activity.json'', JList (map JDict (network_log s)))]
     @ (if performance_metrics s \<noteq> []
        then [(session_path s ''performance_metrics.json'',
               JDict (map (\<lambda>(k, v). (k, JDict v)) (performance_metrics s)))]
        else [])
     @ (if websocket_messages s \<noteq> []
        then [(session_path s ''websocket_messages.json'',
               JList (map JDict (websocket_messages s)))]
        else [])
     @ [(session_path s ''session_summary.json'',
         summary now s start request_count response_count)]"

fun write_all ::
  "(string \<Rightarrow> io_outcome) \<Rightarrow> (string \<times> json) list \<Rightarrow> filesystem \<Rightarrow> error option \<times> filesystem"
where
  "write_all io [] fs = (None, fs)"
| "write_all io ((p, v) # ws) fs =
     (case write_file io p v fs of
        (Some e, fs') \<Rightarrow> (Some e, fs')
      | (None, fs') \<Rightarrow> write_all io ws fs')"




subsection \<open>Example sessions\<close>

definition get_request :: http_request where
  "get_request =
     \<lparr>headers_dict = [(''Host'', ''example.com'')], headers_len = 1,
      http_version = ''HTTP/1.1'', content = Inr None, msg_text = None,
      req_method = ''GET'', url = ''http://example.com/''\<rparr>"

definition post_request :: http_request where
  "post_request =
     \<lparr>headers_dict = [(''Host'', ''example.com'')], headers_len = 1,
      http_version = ''HTTP/1.1'', content = Inr (Some ''0123456789''),
      msg_text = Some ''0123456789'',
      req_method = ''POST'', url = ''http://example.com/''\<rparr>"

definition ok_response :: http_response where
  "ok_response =
     \<lparr>headers_dict = [(''Content-Type'', ''text/plain'')], headers_len = 1,
      http_version = ''HTTP/1.1'', content = Inr (Some ''hello''), msg_text = Some ''hello'',
      status_code = 200\<rparr>"

definition missing_response :: http_response where
  "missing_response =
     \<lparr>headers_dict = [], headers_len = 0,
      http_version = ''HTTP/1.1'', content = Inr None, msg_text = None,
      status_code = 404\<rparr>"

text \<open>A response whose body does not decode: reading its content raises.\<close>

definition corrupt_response :: http_response where
  "corrupt_response =
     \<lparr>headers_dict = [(''Content-Encoding'', ''gzip'')], headers_len = 1,
      http_version = ''HTTP/1.1'', content = Inl (ValueError ''Invalid Content-Encoding''),
      msg_text = None, status_code = 200\<rparr>"

definition get_flow :: http_flow where
  "get_flow = \<lparr>flow_id = ''f1'', flow_request = get_request, flow_response = ok_response,
                flow_messages = []\<rparr>"

definition post_flow :: http_flow where
  "post_flow = \<lparr>flow_id = ''f2'', flow_request = post_request,
                 flow_response = missing_response, flow_messages = []\<rparr>"

definition corrupt_flow :: http_flow where
  "corrupt_flow = \<lparr>flow_id = ''f3'', flow_request = get_request,
                    flow_response = corrupt_response, flow_messages = []\<rparr>"

definition all_ok :: "string \<Rightarrow> io_outcome" where
  "all_ok p = IoOk"

definition perf_write_fails :: "string \<Rightarrow> io_outcome" where
  "perf_write_fails p =
     (if p = ''activity_sessions/s/performance_metrics.json''
      then OpenFails ''No space left on device'' else IoOk)"

text \<open>
  A session at level 3 with one request and its response, finalized twice; and a
  session directory where only the write of the performance artifact fails.
\<close>

definition recorded_session :: recorder where
  "recorded_session =
     snd (response 20 get_flow (snd (requestheaders 10 get_flow (init 3 ''s''))))"

definition first_done :: "(error + unit) \<times> filesystem \<times> recorder" where
  "first_done = recorder_done 100 all_ok Map.empty recorded_session"

definition second_done :: "(error + unit) \<times> filesystem \<times> recorder" where
  "second_done = recorder_done 200 all_ok (fst (snd first_done)) (snd (snd first_done))"

text \<open>A session whose clock reads an earlier time at the response than at the request.\<close>

definition backwards_session :: recorder where
  "backwards_session = run id (init 1 ''s'') [RequestHeaders 10 get_flow, Response 5 get_flow]"

text \<open>
  Two sessions that reconfigure the level: one responds while the level is 1 and is back
  at level 3 when it ends; the other responds to the same URL twice, the second time after
  the level went down to 1.
\<close>

definition regated_session :: recorder where
  "regated_session =
     run id (init 3 ''s'')
       [Configure {''record_level''} 1, Response 20 get_flow, Configure {''record_level''} 3]"

definition stale_session :: recorder where
  "stale_session =
     run id (init 3 ''s'')
       [Response 10 get_flow, Configure {''record_level''} 1, Response 20 post_flow]"






section \<open>Properties\<close>

subsection \<open>Rounding to a double\<close>

lemma round_half_even_error: "\<bar>of_int (round_half_even r) - r\<bar> \<le> 1 / 2"
proof -
  have "of_int \<lfloor>r\<rfloor> \<le> r" "r < of_int \<lfloor>r\<rfloor> + 1" by linarith+
  then show ?thesis
    by (auto simp: round_half_even_def Let_def abs_le_iff)
qed

lemma round_half_even_nonneg: "0 \<le> r \<Longrightarrow> 0 \<le> round_half_even r"
  by (auto simp: round_half_even_def Let_def)

lemma pow2_pos [simp]: "0 < (2::rat) powi k"
  by (simp add: zero_less_power_int)

lemma float_round_nonneg: "0 \<le> x \<Longrightarrow> 0 \<le> float_round x"
  by (auto simp: float_round_def Let_def sgn_if round_half_even_nonneg zero_le_divide_iff)

lemma float_round_nonpos: "x \<le> 0 \<Longrightarrow> float_round x \<le> 0"
proof -
  assume "x \<le> 0"
  have "0 \<le> round_half_even (\<bar>x\<bar> / 2 powi e)" for e
    by (rule round_half_even_nonneg) (simp add: zero_le_divide_iff)
  then show ?thesis using \<open>x \<le> 0\<close>
    by (auto simp: float_round_def Let_def sgn_if mult_le_0_iff zero_le_mult_iff)
qed

lemma duration_of_sign:
  "(start \<le> timestamp \<longrightarrow> 0 \<le> duration_of timestamp start) \<and>
   (timestamp \<le> start \<longrightarrow> duration_of timestamp start \<le> 0)"
  by (auto simp: duration_of_def intro!: float_round_nonneg float_round_nonpos
        simp: zero_le_divide_iff divide_le_0_iff mult_le_0_iff zero_le_mult_iff)

lemma float_round_abs_error:
  "\<bar>float_round x - x\<bar> \<le> 2 powi (max (ilog2 \<bar>x\<bar> - 52) emin) / 2"
proof (cases "x = 0")
  case True
  then show ?thesis by (simp add: float_round_def)
next
  case False
  define e where "e = max (ilog2 \<bar>x\<bar> - 52) emin"
  define m where "m = round_half_even (\<bar>x\<bar> / 2 powi e)"
  have fr: "float_round x = sgn x * of_int m * 2 powi e"
    using False by (simp add: float_round_def Let_def e_def m_def)
  have "\<bar>of_int m - \<bar>x\<bar> / 2 powi e\<bar> \<le> 1 / 2"
    unfolding m_def by (rule round_half_even_error)
  then have "\<bar>of_int m - \<bar>x\<bar> / 2 powi e\<bar> * 2 powi e \<le> 1 / 2 * 2 powi e"
    by (intro mult_right_mono) simp_all
  also have "\<bar>of_int m - \<bar>x\<bar> / 2 powi e\<bar> * 2 powi e = \<bar>of_int m * 2 powi e - \<bar>x\<bar>\<bar>"
  proof -
    have "\<bar>of_int m - \<bar>x\<bar> / 2 powi e\<bar> * 2 powi e
            = \<bar>(of_int m - \<bar>x\<bar> / 2 powi e) * 2 powi e\<bar>"
      by (simp add: abs_mult)
    also have "(of_int m - \<bar>x\<bar> / 2 powi e) * 2 powi e = of_int m * 2 powi e - \<bar>x\<bar>"
      by (simp add: algebra_simps)
    finally show ?thesis .
  qed
  finally have b: "\<bar>of_int m * 2 powi e - \<bar>x\<bar>\<bar> \<le> 2 powi e / 2" by simp
  have "\<bar>float_round x - x\<bar> = \<bar>of_int m * 2 powi e - \<bar>x\<bar>\<bar>"
  proof (cases "0 < x")
    case True
    then show ?thesis by (simp add: fr)
  next
    case neg: False
    with False have "x < 0" by simp
    then have "float_round x - x = - (of_int m * 2 powi e - \<bar>x\<bar>)"
      by (simp add: fr)
    then show ?thesis by (simp only: abs_minus_cancel)
  qed
  with b show ?thesis by (simp add: e_def)
qed

lemma bitlen_nonneg: "0 \<le> bitlen n"
proof (induction n rule: bitlen.induct)
  case (1 n)
  show ?case
  proof (cases "n \<le> 0")
    case True
    then show ?thesis by (simp add: bitlen.simps [of n])
  next
    case False
    with "1.IH" show ?thesis by (simp add: bitlen.simps [of n])
  qed
qed

lemma bitlen_bounds:
  "0 < n \<Longrightarrow> (2::rat) powi (bitlen n - 1) \<le> of_int n \<and> of_int n < (2::rat) powi (bitlen n)"
proof (induction n rule: bitlen.induct)
  case (1 n)
  show ?case
  proof (cases "n = 1")
    case True
    then show ?thesis by (simp add: bitlen.simps [of 1] bitlen.simps [of 0])
  next
    case False
    with "1.prems" have h: "0 < n div 2" by simp
    from "1.IH" [OF _ h] "1.prems"
    have ih: "(2::rat) powi (bitlen (n div 2) - 1) \<le> of_int (n div 2)"
             "of_int (n div 2) < (2::rat) powi (bitlen (n div 2))"
      by simp_all
    have bl: "bitlen n = 1 + bitlen (n div 2)"
      using "1.prems" by (subst bitlen.simps) simp
    have lo: "(2::rat) * of_int (n div 2) \<le> of_int n"
    proof -
      have "2 * (n div 2) \<le> n" by simp
      then have "(of_int (2 * (n div 2)) :: rat) \<le> of_int n" by (simp only: of_int_le_iff)
      then show ?thesis by simp
    qed
    have hi: "of_int n \<le> (2::rat) * of_int (n div 2) + 1"
    proof -
      have "n \<le> 2 * (n div 2) + 1" by presburger
      then have "(of_int n :: rat) \<le> of_int (2 * (n div 2) + 1)" by (simp only: of_int_le_iff)
      then show ?thesis by simp
    qed
    have p1: "(2::rat) powi (bitlen n - 1) = 2 * 2 powi (bitlen (n div 2) - 1)"
      by (simp add: bl power_int_diff)
    have p2: "(2::rat) powi (bitlen n) = 2 * 2 powi (bitlen (n div 2))"
      by (simp add: bl power_int_add)
    have intlt: "of_int (n div 2) + 1 \<le> (2::rat) powi (bitlen (n div 2))"
    proof -
      have nn: "0 \<le> bitlen (n div 2)" by (rule bitlen_nonneg)
      then have e: "(2::rat) powi (bitlen (n div 2)) = of_int (2 ^ nat (bitlen (n div 2)))"
        by (simp add: power_int_def)
      from ih(2) have "(of_int (n div 2) :: rat) < of_int (2 ^ nat (bitlen (n div 2)))"
        by (simp only: e)
      then have "n div 2 < 2 ^ nat (bitlen (n div 2))"
        by (simp only: of_int_less_iff)
      then have "n div 2 + 1 \<le> 2 ^ nat (bitlen (n div 2))"
        by simp
      then have "(of_int (n div 2 + 1) :: rat) \<le> of_int (2 ^ nat (bitlen (n div 2)))"
        by (simp only: of_int_le_iff)
      then show ?thesis
        by (simp only: e of_int_add of_int_1)
    qed
    show ?thesis
      using ih lo hi intlt by (simp add: p1 p2)
  qed
qed

lemma ilog2_le:
  assumes "0 < x"
  shows "2 powi (ilog2 x) \<le> x"
proof -
  obtain p q where pq: "quotient_of x = (p, q)" by (cases "quotient_of x")
  then have q: "0 < q" by (rule quotient_of_denom_pos)
  have x: "x = of_int p / of_int q" using pq by (rule quotient_of_div)
  with assms q have p: "0 < p" by (simp add: zero_less_divide_iff)
  define k where "k = bitlen p - bitlen q"
  have il: "ilog2 x = (if 2 powi k \<le> x then k else k - 1)"
    by (simp add: ilog2_def pq k_def)
  show ?thesis
  proof (cases "2 powi k \<le> x")
    case True
    then show ?thesis by (simp add: il)
  next
    case False
    from bitlen_bounds [OF p] have lo: "(2::rat) powi (bitlen p - 1) \<le> of_int p" by simp
    from bitlen_bounds [OF q] have hi: "of_int q \<le> (2::rat) powi (bitlen q)" by simp
    have "(2::rat) powi (k - 1) = 2 powi (bitlen p - 1) / 2 powi (bitlen q)"
      by (simp add: k_def power_int_diff)
    also have "\<dots> \<le> of_int p / 2 powi (bitlen q)"
      using lo by (simp add: divide_right_mono)
    also have "\<dots> \<le> of_int p / of_int q"
      using hi p q by (intro divide_left_mono) simp_all
    finally have "(2::rat) powi (k - 1) \<le> x" by (simp only: x)
    with False show ?thesis by (simp add: il)
  qed
qed

lemma float_round_rel_error:
  "\<bar>float_round x - x\<bar> \<le> \<bar>x\<bar> / 2 ^ 53 + 2 powi (emin - 1)"
proof (cases "x = 0")
  case True
  then show ?thesis by (simp add: float_round_def less_imp_le)
next
  case False
  then have a: "0 < \<bar>x\<bar>" by simp
  have t0: "0 \<le> (2::rat) powi (emin - 1)" by (simp add: less_imp_le)
  have x0: "0 \<le> \<bar>x\<bar> / 2 ^ 53" by simp
  show ?thesis
  proof (cases "ilog2 \<bar>x\<bar> - 52 \<le> emin")
    case True
    then have "max (ilog2 \<bar>x\<bar> - 52) emin = emin" by simp
    with float_round_abs_error [of x]
    have "\<bar>float_round x - x\<bar> \<le> 2 powi emin / 2" by simp
    also have "(2::rat) powi emin / 2 = 2 powi (emin - 1)"
      by (simp add: power_int_diff)
    finally show ?thesis using x0 by linarith
  next
    case False
    then have "max (ilog2 \<bar>x\<bar> - 52) emin = ilog2 \<bar>x\<bar> - 52" by simp
    with float_round_abs_error [of x]
    have "\<bar>float_round x - x\<bar> \<le> 2 powi (ilog2 \<bar>x\<bar> - 52) / 2" by simp
    also have "(2::rat) powi (ilog2 \<bar>x\<bar> - 52) / 2 = 2 powi (ilog2 \<bar>x\<bar>) / 2 ^ 53"
      by (simp add: power_int_diff)
    also have "\<dots> \<le> \<bar>x\<bar> / 2 ^ 53"
      using ilog2_le [OF a] by (simp add: divide_right_mono)
    finally show ?thesis using t0 by linarith
  qed
qed

lemma tiny_bound: "(2::rat) powi (emin - 1) \<le> 1 / 2 ^ 100"
proof -
  have "(2::rat) powi (emin - 1) \<le> 2 powi (- 100)"
    by (rule power_int_increasing) (simp_all add: emin_def)
  also have "(2::rat) powi (- 100) = 1 / 2 ^ 100"
    by (simp add: power_int_minus inverse_eq_divide)
  finally show ?thesis .
qed

lemma duration_of_error:
  "\<bar>duration_of timestamp start - of_int (timestamp - start) / 1000\<bar>
     \<le> \<bar>of_int (timestamp - start)\<bar> / 10 ^ 18"
proof (cases "timestamp = start")
  case True
  then show ?thesis by (simp add: duration_of_def float_round_def)
next
  case False
  define D :: rat where "D = of_int (timestamp - start)"
  define x where "x = D / 1000000"
  define y where "y = float_round x"
  define z where "z = float_round (y * 1000)"
  define tau :: rat where "tau = 2 powi (emin - 1)"
  have z: "duration_of timestamp start = z"
    by (simp add: duration_of_def z_def y_def x_def D_def)
  from False have "timestamp - start \<noteq> 0" by simp
  then have "1 \<le> \<bar>timestamp - start\<bar>" by linarith
  then have "(1::rat) \<le> of_int \<bar>timestamp - start\<bar>" by (simp only: of_int_1_le_iff)
  then have D1: "1 \<le> \<bar>D\<bar>" by (simp add: D_def)
  have ax: "\<bar>x\<bar> = \<bar>D\<bar> / 1000000" by (simp add: x_def)
  have A: "\<bar>y - x\<bar> \<le> \<bar>x\<bar> / 9007199254740992 + tau"
    using float_round_rel_error [of x] by (simp add: y_def tau_def)
  have B: "\<bar>z - y * 1000\<bar> \<le> \<bar>y\<bar> * 1000 / 9007199254740992 + tau"
    using float_round_rel_error [of "y * 1000"] by (simp add: z_def tau_def abs_mult)
  have C: "tau \<le> 1 / 1267650600228229401496703205376"
    using tiny_bound by (simp add: tau_def)
  have T: "0 \<le> tau" by (simp add: tau_def less_imp_le)
  have h1: "\<bar>y\<bar> \<le> \<bar>x\<bar> + \<bar>y - x\<bar>" by linarith
  have "z - D / 1000 = (z - y * 1000) + 1000 * (y - x)"
    by (simp add: x_def)
  then have "\<bar>z - D / 1000\<bar> \<le> \<bar>z - y * 1000\<bar> + \<bar>1000 * (y - x)\<bar>"
    by (simp only: abs_triangle_ineq)
  moreover have "\<bar>1000 * (y - x)\<bar> = 1000 * \<bar>y - x\<bar>"
    by (simp only: abs_mult abs_numeral)
  ultimately have h2: "\<bar>z - D / 1000\<bar> \<le> \<bar>z - y * 1000\<bar> + 1000 * \<bar>y - x\<bar>"
    by (simp only:)
  have "\<bar>z - D / 1000\<bar> \<le> \<bar>D\<bar> / 1000000000000000000"
    using A B C T h1 h2 D1 ax by linarith
  then show ?thesis by (simp add: z D_def)
qed

subsection \<open>What the handlers leave alone\<close>

lemma log_line_fields [simp]:
  "record_level (log_line lv m s) = record_level s"
  "session_name (log_line lv m s) = session_name s"
  "network_log (log_line lv m s) = network_log s"
  "performance_metrics (log_line lv m s) = performance_metrics s"
  "websocket_messages (log_line lv m s) = websocket_messages s"
  "request_timestamps (log_line lv m s) = request_timestamps s"
  "logger (log_line lv m s) = logger s @ [(lv, m)]"
  by (simp_all add: log_line_def)

lemma ws_loop_network_log [simp]:
  "network_log (ws_loop dec nows flow i ms s) = network_log s"
  by (induction ms arbitrary: i s) simp_all

lemma ws_loop_record_level [simp]:
  "record_level (ws_loop dec nows flow i ms s) = record_level s"
  by (induction ms arbitrary: i s) simp_all

lemma ws_loop_performance_metrics [simp]:
  "performance_metrics (ws_loop dec nows flow i ms s) = performance_metrics s"
  by (induction ms arbitrary: i s) simp_all

lemma ws_loop_request_timestamps [simp]:
  "request_timestamps (ws_loop dec nows flow i ms s) = request_timestamps s"
  by (induction ms arbitrary: i s) simp_all

lemma ws_loop_session_name [simp]:
  "session_name (ws_loop dec nows flow i ms s) = session_name s"
  by (induction ms arbitrary: i s) simp_all

lemma requestheaders_keeps [simp]:
  "record_level (snd (requestheaders t flow s)) = record_level s"
  "session_name (snd (requestheaders t flow s)) = session_name s"
  "performance_metrics (snd (requestheaders t flow s)) = performance_metrics s"
  "websocket_messages (snd (requestheaders t flow s)) = websocket_messages s"
  by (simp_all add: requestheaders_def Let_def split: sum.splits)

lemma response_keeps [simp]:
  "record_level (snd (response t flow s)) = record_level s"
  "session_name (snd (response t flow s)) = session_name s"
  "websocket_messages (snd (response t flow s)) = websocket_messages s"
  "request_timestamps (snd (response t flow s)) = request_timestamps s"
  by (simp_all add: response_def Let_def split: sum.splits)

text \<open>
  The response handler returns normally unless the level is at least 2 and reading the
  content of the response raises; a call that raises leaves the recorder as it was.
\<close>

lemma response_returns_iff:
  "fst (response t flow s) = Inr () \<longleftrightarrow>
   record_level s < 2 \<or> (\<exists>c. content (flow_response flow) = Inr c)"
  by (cases "content (flow_response flow)")
     (auto simp: response_def Let_def content_guard_def)

lemma response_raises:
  "record_level s \<ge> 2 \<Longrightarrow> content (flow_response flow) = Inl e \<Longrightarrow>
   response t flow s = (Inl e, s)"
  by (simp add: response_def Let_def content_guard_def)

lemma response_not_returned:
  "fst (response t flow s) \<noteq> Inr () \<Longrightarrow> snd (response t flow s) = s"
  by (simp add: response_def Let_def split: sum.splits)

text \<open>
  Claim C10. For every flow and every level, the request-headers handler changes neither
  the per-URL performance-record mapping nor the stream-message log (it writes the
  timestamp table, the generic log and the diagnostic log only), whether it returns or
  raises.
\<close>

theorem requestheaders_frame:
  "performance_metrics (snd (requestheaders t flow s)) = performance_metrics s \<and>
   websocket_messages (snd (requestheaders t flow s)) = websocket_messages s"
  by (simp add: requestheaders_def Let_def split: sum.splits)

theorem requestheaders_frame_witness:
  "performance_metrics (snd (requestheaders 10 post_flow (init 4 ''s''))) = [] \<and>
   websocket_messages (snd (requestheaders 10 post_flow (init 4 ''s''))) = []"
  using requestheaders_frame [of 10 post_flow "init 4 ''s''"]
  by (simp add: init_def Let_def)

subsection \<open>Performance records\<close>



subsection \<open>Body fields below level 2\<close>

lemma step_low_level_log:
  assumes "record_level s < 2"
  shows "\<exists>new. network_log (step dec e s) = network_log s @ new \<and> list_all no_body_fields new"
  using assms
  by (cases e)
     (simp_all add: configure_def requestheaders_def response_def websocket_message_def
        websocket_end_def Let_def content_guard_def body_fields_def no_body_fields_def)

lemma run_low_level_log:
  "levels_below dec 2 s evs \<Longrightarrow>
   \<exists>new. network_log (run dec s evs) = network_log s @ new \<and> list_all no_body_fields new"
proof (induction evs arbitrary: s)
  case Nil
  then show ?case by simp
next
  case (Cons e es)
  from Cons.prems have lv: "record_level s < 2"
    and rest: "levels_below dec 2 (step dec e s) es"
    by simp_all
  from step_low_level_log [OF lv, of dec e] obtain n1 where
    n1: "network_log (step dec e s) = network_log s @ n1" "list_all no_body_fields n1"
    by blast
  from Cons.IH [OF rest] obtain n2 where
    n2: "network_log (run dec (step dec e s) es) = network_log (step dec e s) @ n2"
        "list_all no_body_fields n2"
    by blast
  show ?case using n1 n2 by simp
qed

text \<open>
  Claim C7. In a session whose level is below 2 whenever an event is processed, every
  entry of the generic log has neither a \<open>body_size\<close> nor a \<open>body_preview\<close> key.
\<close>

theorem low_level_omits_body_fields:
  assumes "levels_below dec 2 (init lvl name) evs"
  shows "list_all no_body_fields (network_log (run dec (init lvl name) evs))"
proof -
  from run_low_level_log [OF assms] obtain new where
    "network_log (run dec (init lvl name) evs) = network_log (init lvl name) @ new"
    "list_all no_body_fields new"
    by blast
  then show ?thesis by (simp add: init_def Let_def)
qed

theorem low_level_omits_body_fields_witness:
  "levels_below id 2 (init 1 ''s'') [RequestHeaders 10 post_flow, Response 20 get_flow] \<and>
   list_all no_body_fields
     (network_log (run id (init 1 ''s'') [RequestHeaders 10 post_flow, Response 20 get_flow])) \<and>
   length (network_log
     (run id (init 1 ''s'') [RequestHeaders 10 post_flow, Response 20 get_flow])) = 2"
proof -
  have h: "levels_below id 2 (init 1 ''s'') [RequestHeaders 10 post_flow, Response 20 get_flow]"
    by (simp add: init_def Let_def)
  show ?thesis
    using h low_level_omits_body_fields [OF h]
    by (simp add: init_def Let_def requestheaders_def response_def content_guard_def)
qed

subsection \<open>Finalize\<close>

lemma session_path_log_line [simp]: "session_path (log_line lv m s) n = session_path s n"
  by (simp add: session_path_def)

lemma count_type_filter:
  "count_type t nl = Inr n \<Longrightarrow> n = length (filter (is_kind t) nl)"
  by (induction nl arbitrary: n) (auto simp: is_kind_def split: option.splits sum.splits)

lemma write_file_ok:
  "write_file io p v fs = (None, fs') \<longleftrightarrow> io p = IoOk \<and> fs' = fs(p \<mapsto> Whole v)"
  by (auto simp: write_file_def split: io_outcome.splits)

lemma save_performance_ok:
  assumes "save_performance io fs s = (None, fs', s')"
  shows "fs' = (if performance_metrics s \<noteq> []
                then fs(session_path s ''performance_metrics.json'' \<mapsto>
                       Whole (JDict (map (\<lambda>(k, v). (k, JDict v)) (performance_metrics s))))
                else fs) \<and>
         s' = s\<lparr>logger := logger s'\<rparr> \<and>
         (performance_metrics s \<noteq> [] \<longrightarrow> io (session_path s ''performance_metrics.json'') = IoOk)"
  using assms
  by (auto simp: save_performance_def Let_def write_file_def log_line_def
      split: if_splits io_outcome.splits)

lemma save_websocket_ok:
  assumes "save_websocket io fs s = (None, fs', s')"
  shows "fs' = (if websocket_messages s \<noteq> []
                then fs(session_path s ''websocket_messages.json'' \<mapsto>
                       Whole (JList (map JDict (websocket_messages s))))
                else fs) \<and>
         s' = s\<lparr>logger := logger s'\<rparr> \<and>
         (websocket_messages s \<noteq> [] \<longrightarrow> io (session_path s ''websocket_messages.json'') = IoOk)"
  using assms
  by (auto simp: save_websocket_def Let_def write_file_def log_line_def
      split: if_splits io_outcome.splits)

lemma recorder_done_success:
  assumes ok: "recorder_done now io fs s = (Inr (), fs', s')"
  shows "\<exists>rc rsc start.
           count_type ''request'' (network_log s) = Inr rc \<and>
           count_type ''response'' (network_log s) = Inr rsc \<and>
           start_time (network_log s) = Inr start \<and>
           fs' = saved fs s (summary now s start rc rsc) \<and>
           (\<exists>l. s' = s\<lparr>logger := l\<rparr>) \<and>
           io (session_path s ''network_activity.json'') = IoOk \<and>
           (performance_metrics s \<noteq> [] \<longrightarrow>
              io (session_path s ''performance_metrics.json'') = IoOk) \<and>
           (websocket_messages s \<noteq> [] \<longrightarrow>
              io (session_path s ''websocket_messages.json'') = IoOk) \<and>
           io (session_path s ''session_summary.json'') = IoOk"
proof -
  let ?nf = "session_path s ''network_activity.json''"
  let ?sf = "session_path s ''session_summary.json''"
  let ?s0 = "log_line INFO SavingRecordedData s"
  let ?s1 = "log_line INFO (NetworkActivitySaved ?nf) ?s0"
  obtain r1 fs1 where w1:
    "write_file io ?nf (JList (map JDict (network_log s))) fs = (r1, fs1)"
    by (cases "write_file io ?nf (JList (map JDict (network_log s))) fs")
  have r1: "r1 = None"
    using ok w1 by (cases r1) (simp_all add: recorder_done_def Let_def failed_def)
  obtain rc where rc: "count_type ''request'' (network_log s) = Inr rc"
    using ok w1 r1
    by (cases "count_type ''request'' (network_log s)")
       (simp_all add: recorder_done_def Let_def failed_def)
  obtain rsc where rsc: "count_type ''response'' (network_log s) = Inr rsc"
    using ok w1 r1 rc
    by (cases "count_type ''response'' (network_log s)")
       (simp_all add: recorder_done_def Let_def failed_def)
  let ?s2 = "log_line INFO (TotalCounts rc rsc) ?s1"
  obtain r2 fs2 s3 where p: "save_performance io fs1 ?s2 = (r2, fs2, s3)"
    by (cases "save_performance io fs1 ?s2")
  have r2: "r2 = None"
    using ok w1 r1 rc rsc p by (cases r2) (simp_all add: recorder_done_def Let_def failed_def)
  obtain r3 fs3 s4 where w: "save_websocket io fs2 s3 = (r3, fs3, s4)"
    by (cases "save_websocket io fs2 s3")
  have r3: "r3 = None"
    using ok w1 r1 rc rsc p r2 w
    by (cases r3) (simp_all add: recorder_done_def Let_def failed_def)
  obtain start where st: "start_time (network_log s) = Inr start"
    using ok w1 r1 rc rsc p r2 w r3
    by (cases "start_time (network_log s)")
       (simp_all add: recorder_done_def Let_def failed_def)
  obtain r4 fs4 where w4:
    "write_file io ?sf (summary now s start rc rsc) fs3 = (r4, fs4)"
    by (cases "write_file io ?sf (summary now s start rc rsc) fs3")
  have r4: "r4 = None"
    using ok w1 r1 rc rsc p r2 w r3 st w4
    by (cases r4) (simp_all add: recorder_done_def Let_def failed_def)
  have res: "fs' = fs4" "s' = log_line INFO CompletedSuccessfully (log_line INFO (SummarySaved ?sf) s4)"
    using ok w1 r1 rc rsc p r2 w r3 st w4 r4
    by (simp_all add: recorder_done_def Let_def failed_def)
  from w1 r1 have f1: "io ?nf = IoOk" "fs1 = fs(?nf \<mapsto> Whole (JList (map JDict (network_log s))))"
    by (simp_all add: write_file_ok)
  from save_performance_ok [OF p [unfolded r2]]
  have f2: "fs2 = (if performance_metrics s \<noteq> []
                then fs1(session_path s ''performance_metrics.json'' \<mapsto>
                       Whole (JDict (map (\<lambda>(k, v). (k, JDict v)) (performance_metrics s))))
                else fs1)"
    and s3: "s3 = ?s2\<lparr>logger := logger s3\<rparr>"
    and i2: "performance_metrics s \<noteq> [] \<longrightarrow> io (session_path s ''performance_metrics.json'') = IoOk"
    by simp_all
  have "s3 = s\<lparr>logger := logger s3\<rparr>"
    using s3 by (simp add: log_line_def)
  then obtain l3 where s3': "s3 = s\<lparr>logger := l3\<rparr>" ..
  have s3f: "websocket_messages s3 = websocket_messages s"
    "session_path s3 ''websocket_messages.json'' = session_path s ''websocket_messages.json''"
    by (simp_all add: s3' session_path_def)
  from save_websocket_ok [OF w [unfolded r3]]
  have f3: "fs3 = (if websocket_messages s \<noteq> []
                then fs2(session_path s ''websocket_messages.json'' \<mapsto>
                       Whole (JList (map JDict (websocket_messages s))))
                else fs2)"
    and s4: "s4 = s3\<lparr>logger := logger s4\<rparr>"
    and i3: "websocket_messages s \<noteq> [] \<longrightarrow> io (session_path s ''websocket_messages.json'') = IoOk"
    by (simp_all add: s3f)
  have s4': "s4 = s\<lparr>logger := logger s4\<rparr>"
    by (subst s4) (simp add: s3')
  from w4 r4 have f4: "io ?sf = IoOk" "fs4 = fs3(?sf \<mapsto> Whole (summary now s start rc rsc))"
    by (simp_all add: write_file_ok)
  have fs': "fs' = saved fs s (summary now s start rc rsc)"
    by (simp add: res f4 f3 f2 f1 saved_def Let_def)
  have "s' = s\<lparr>logger := logger s'\<rparr>"
    by (subst res(2), subst s4') (simp add: log_line_def res(2))
  then have s': "\<exists>l. s' = s\<lparr>logger := l\<rparr>" ..
  show ?thesis using rc rsc st fs' s' f1(1) i2 i3 f4(1) by blast
qed

lemma recorder_done_error_logged:
  assumes "recorder_done now io fs s = (Inl e, fs', s')"
  shows "last (logger s') = (ERROR, ErrorSaving e)"
  using assms
  by (auto simp: recorder_done_def Let_def failed_def
      split: prod.splits option.splits sum.splits)

lemma session_path_logger [simp]: "session_path (s\<lparr>logger := l\<rparr>) n = session_path s n"
  by (simp add: session_path_def)

lemma session_path_inject [simp]: "session_path s a = session_path s b \<longleftrightarrow> a = b"
  by (simp add: session_path_def)

lemma saved_logger [simp]: "saved fs (s\<lparr>logger := l\<rparr>) = saved fs s"
  by (rule ext) (simp add: saved_def Let_def)

lemma summary_logger [simp]: "summary now (s\<lparr>logger := l\<rparr>) = summary now s"
  by (simp add: summary_def fun_eq_iff)

lemma saved_again:
  "saved (saved fs s x) s y = (saved fs s x)(session_path s ''session_summary.json'' \<mapsto> Whole y)"
  by (rule ext) (simp add: saved_def Let_def)

lemma saved_summary: "saved fs s x (session_path s ''session_summary.json'') = Some (Whole x)"
  by (simp add: saved_def Let_def)

lemmas example_defs =
  recorded_session_def init_def requestheaders_def response_def log_line_def Let_def
  get_flow_def get_request_def ok_response_def body_fields_def truthy_def duration_ms_def
  performance_record_def headers_json_def content_guard_def content_bytes_def

lemmas done_defs =
  recorder_done_def save_performance_def save_websocket_def write_file_def failed_def
  session_path_def all_ok_def summary_def start_time_def

lemma recorded_session_fields:
  "session_name recorded_session = ''s''"
  "performance_metrics recorded_session \<noteq> []"
  "websocket_messages recorded_session = []"
  "length (filter (is_kind ''request'') (network_log recorded_session)) = 1"
  "length (filter (is_kind ''response'') (network_log recorded_session)) = 1"
  by (simp_all add: example_defs is_kind_def)

lemma first_done_ok: "fst first_done = Inr ()"
  by (simp add: first_done_def done_defs example_defs)

lemma second_done_ok: "fst second_done = Inr ()"
  by (simp add: second_done_def first_done_def done_defs example_defs)

lemma first_done_result:
  "recorder_done 100 all_ok Map.empty recorded_session
     = (Inr (), fst (snd first_done), snd (snd first_done))"
  by (metis first_done_def first_done_ok prod.collapse)

lemma second_done_result:
  "recorder_done 200 all_ok (fst (snd first_done)) (snd (snd first_done))
     = (Inr (), fst (snd second_done), snd (snd second_done))"
  by (metis second_done_def second_done_ok prod.collapse)

lemma perf_failure_result:
  "fst (recorder_done 30 perf_write_fails Map.empty recorded_session)
     = Inl (OSError ''No space left on device'')"
  by (simp add: perf_write_fails_def done_defs example_defs)

lemma write_all_append:
  "write_all io (xs @ ys) fs =
     (case write_all io xs fs of
        (Some e, fs') \<Rightarrow> (Some e, fs')
      | (None, fs') \<Rightarrow> write_all io ys fs')"
  by (induction xs arbitrary: fs) (auto split: prod.splits option.splits)

lemma write_all_single: "write_all io [(p, v)] fs = write_file io p v fs"
  by (cases "write_file io p v fs") (auto split: option.splits)

lemma save_performance_writes:
  "save_performance io fs s = (r, fs', s') \<Longrightarrow>
   write_all io (if performance_metrics s \<noteq> []
                 then [(session_path s ''performance_metrics.json'',
                        JDict (map (\<lambda>(k, v). (k, JDict v)) (performance_metrics s)))]
                 else []) fs = (r, fs')"
  by (auto simp: save_performance_def Let_def split: if_splits prod.splits option.splits)

lemma save_websocket_writes:
  "save_websocket io fs s = (r, fs', s') \<Longrightarrow>
   write_all io (if websocket_messages s \<noteq> []
                 then [(session_path s ''websocket_messages.json'',
                        JList (map JDict (websocket_messages s)))]
                 else []) fs = (r, fs')"
  by (auto simp: save_websocket_def Let_def split: if_splits prod.splits option.splits)

lemma same_but_logger: "\<exists>l. s = s\<lparr>logger := l\<rparr>"
  by (rule exI [of _ "logger s"]) simp

lemma save_performance_state:
  "save_performance io fs s = (r, fs', s') \<Longrightarrow> \<exists>l. s' = s\<lparr>logger := l\<rparr>"
  by (auto simp: save_performance_def Let_def log_line_def same_but_logger
      split: if_splits prod.splits option.splits)

lemma recorder_done_writes:
  assumes rc: "count_type ''request'' (network_log s) = Inr rc"
    and rsc: "count_type ''response'' (network_log s) = Inr rsc"
    and st: "start_time (network_log s) = Inr st"
  shows "(fst (recorder_done now io fs s), fst (snd (recorder_done now io fs s)))
           = (case write_all io (planned_writes now s st rc rsc) fs of
                (None, fs') \<Rightarrow> (Inr (), fs')
              | (Some e, fs') \<Rightarrow> (Inl e, fs'))"
proof -
  let ?nf = "session_path s ''network_activity.json''"
  let ?nv = "JList (map JDict (network_log s))"
  let ?pw = "if performance_metrics s \<noteq> []
             then [(session_path s ''performance_metrics.json'',
                    JDict (map (\<lambda>(k, v). (k, JDict v)) (performance_metrics s)))]
             else []"
  let ?ww = "if websocket_messages s \<noteq> []
             then [(session_path s ''websocket_messages.json'',
                    JList (map JDict (websocket_messages s)))]
             else []"
  let ?sf = "session_path s ''session_summary.json''"
  let ?sv = "summary now s st rc rsc"
  let ?s2 = "log_line INFO (TotalCounts rc rsc)
               (log_line INFO (NetworkActivitySaved ?nf) (log_line INFO SavingRecordedData s))"
  have "planned_writes now s st rc rsc = [(?nf, ?nv)] @ ?pw @ ?ww @ [(?sf, ?sv)]"
    by (simp add: planned_writes_def)
  then have plan: "write_all io (planned_writes now s st rc rsc) fs =
      (case write_file io ?nf ?nv fs of
         (Some e, fs') \<Rightarrow> (Some e, fs')
       | (None, fs') \<Rightarrow>
           (case write_all io ?pw fs' of
              (Some e, fs') \<Rightarrow> (Some e, fs')
            | (None, fs') \<Rightarrow>
                (case write_all io ?ww fs' of
                   (Some e, fs') \<Rightarrow> (Some e, fs')
                 | (None, fs') \<Rightarrow> write_file io ?sf ?sv fs')))"
    by (simp only: write_all_append write_all_single)
  obtain r1 fs1 where w1: "write_file io ?nf ?nv fs = (r1, fs1)"
    by (cases "write_file io ?nf ?nv fs")
  show ?thesis
  proof (cases r1)
    case (Some e)
    then show ?thesis
      using w1 by (simp add: recorder_done_def Let_def failed_def plan)
  next
    case None
    note r1 = this
    obtain r2 fs2 s3 where p: "save_performance io fs1 ?s2 = (r2, fs2, s3)"
      by (cases "save_performance io fs1 ?s2")
    from save_performance_writes [OF p] have p': "write_all io ?pw fs1 = (r2, fs2)"
      by (cases "performance_metrics s = []") simp_all
    from save_performance_state [OF p] obtain l3 where s3: "s3 = s\<lparr>logger := l3\<rparr>"
      by (auto simp: log_line_def)
    show ?thesis
    proof (cases r2)
      case (Some e)
      then show ?thesis
        using w1 r1 p p' rc rsc
        by (simp add: recorder_done_def Let_def failed_def plan)
    next
      case None
      note r2 = this
      obtain r3 fs3 s4 where w: "save_websocket io fs2 s3 = (r3, fs3, s4)"
        by (cases "save_websocket io fs2 s3")
      from save_websocket_writes [OF w] have w': "write_all io ?ww fs2 = (r3, fs3)"
        by (cases "websocket_messages s = []") (simp_all add: s3 session_path_def)
      show ?thesis
      proof (cases r3)
        case (Some e)
        then show ?thesis
          using w1 r1 p p' r2 w w' rc rsc
          by (simp add: recorder_done_def Let_def failed_def plan)
      next
        case None
        note r3 = this
        obtain r4 fs4 where w4: "write_file io ?sf ?sv fs3 = (r4, fs4)"
          by (cases "write_file io ?sf ?sv fs3")
        show ?thesis
          using w1 r1 p p' r2 w w' r3 w4 rc rsc st
          by (cases r4)
             (simp_all add: recorder_done_def Let_def failed_def plan)
      qed
    qed
  qed
qed

text \<open>
  Claim C8. When finalize returns normally, the summary it wrote has \<open>total_requests\<close>
  equal to the number of entries of the generic log whose type is \<open>request\<close>, and
  \<open>total_responses\<close> equal to the number of those whose type is \<open>response\<close>.
\<close>

theorem finalize_summary_counts:
  assumes "recorder_done now io fs s = (Inr (), fs', s')"
  shows "\<exists>summ. fs' (session_path s ''session_summary.json'') = Some (Whole summ) \<and>
           get_field ''total_requests'' summ
             = Some (JInt (int (length (filter (is_kind ''request'') (network_log s))))) \<and>
           get_field ''total_responses'' summ
             = Some (JInt (int (length (filter (is_kind ''response'') (network_log s)))))"
proof -
  from recorder_done_success [OF assms] obtain rc rsc start where
    a: "count_type ''request'' (network_log s) = Inr rc"
       "count_type ''response'' (network_log s) = Inr rsc"
       "fs' = saved fs s (summary now s start rc rsc)"
    by blast
  have "get_field ''total_requests'' (summary now s start rc rsc) = Some (JInt (int rc))"
       "get_field ''total_responses'' (summary now s start rc rsc) = Some (JInt (int rsc))"
    by (simp_all add: get_field_def summary_def)
  with a count_type_filter [OF a(1)] count_type_filter [OF a(2)] show ?thesis
    by (simp add: saved_summary)
qed

theorem finalize_summary_counts_witness:
  "fst first_done = Inr () \<and>
   (\<exists>summ. fst (snd first_done) (session_path recorded_session ''session_summary.json'')
              = Some (Whole summ) \<and>
            get_field ''total_requests'' summ = Some (JInt 1) \<and>
            get_field ''total_responses'' summ = Some (JInt 1))"
  using finalize_summary_counts [OF first_done_result] first_done_ok
  by (simp add: recorded_session_fields)

text \<open>
  Claim C2, as stated: only a failure of the write of the network-activity artifact
  reaches the caller. It fails: with the network-activity write succeeding and only the
  write of the performance artifact failing, finalize still ends with that error.
\<close>

theorem optional_write_failure_counterexample:
  "perf_write_fails ''activity_sessions/s/network_activity.json'' = IoOk \<and>
   fst (recorder_done 30 perf_write_fails Map.empty recorded_session)
     = Inl (OSError ''No space left on device'')"
  by (simp add: perf_failure_result) (simp add: perf_write_fails_def)

text \<open>
  Claim C2, amended. The whole of finalize is one \<open>try\<close> block. Its writes are
  attempted in the order network-activity artifact, performance artifact (when the
  mapping is not empty), stream artifact (when the stream log is not empty), summary;
  the first write that fails ends finalize with the error of that write for the caller,
  and no later write is attempted. Every error that finalize ends with is the last line
  of the diagnostic log, at level ERROR.
\<close>

theorem finalize_failure_propagates:
  assumes "count_type ''request'' (network_log s) = Inr rc"
    and "count_type ''response'' (network_log s) = Inr rsc"
    and "start_time (network_log s) = Inr st"
  shows "(fst (recorder_done now io fs s), fst (snd (recorder_done now io fs s)))
           = (case write_all io (planned_writes now s st rc rsc) fs of
                (None, fs') \<Rightarrow> (Inr (), fs')
              | (Some e, fs') \<Rightarrow> (Inl e, fs')) \<and>
         (\<forall>e. fst (recorder_done now io fs s) = Inl e \<longrightarrow>
              last (logger (snd (snd (recorder_done now io fs s)))) = (ERROR, ErrorSaving e))"
proof
  show "(fst (recorder_done now io fs s), fst (snd (recorder_done now io fs s)))
           = (case write_all io (planned_writes now s st rc rsc) fs of
                (None, fs') \<Rightarrow> (Inr (), fs')
              | (Some e, fs') \<Rightarrow> (Inl e, fs'))"
    using assms by (rule recorder_done_writes)
next
  show "\<forall>e. fst (recorder_done now io fs s) = Inl e \<longrightarrow>
              last (logger (snd (snd (recorder_done now io fs s)))) = (ERROR, ErrorSaving e)"
  proof (intro allI impI)
    fix e
    assume "fst (recorder_done now io fs s) = Inl e"
    then have "recorder_done now io fs s
        = (Inl e, fst (snd (recorder_done now io fs s)), snd (snd (recorder_done now io fs s)))"
      by (metis prod.collapse)
    then show "last (logger (snd (snd (recorder_done now io fs s)))) = (ERROR, ErrorSaving e)"
      by (rule recorder_done_error_logged)
  qed
qed

theorem finalize_failure_propagates_witness:
  "count_type ''request'' (network_log recorded_session) = Inr 1 \<and>
   count_type ''response'' (network_log recorded_session) = Inr 1 \<and>
   start_time (network_log recorded_session) = Inr (JTime 10) \<and>
   fst (recorder_done 30 perf_write_fails Map.empty recorded_session)
     = Inl (OSError ''No space left on device'') \<and>
   fst (snd (recorder_done 30 perf_write_fails Map.empty recorded_session))
     = Map.empty(''activity_sessions/s/network_activity.json'' \<mapsto>
         Whole (JList (map JDict (network_log recorded_session)))) \<and>
   last (logger (snd (snd (recorder_done 30 perf_write_fails Map.empty recorded_session))))
     = (ERROR, ErrorSaving (OSError ''No space left on device''))"
proof -
  have c: "count_type ''request'' (network_log recorded_session) = Inr 1"
    "count_type ''response'' (network_log recorded_session) = Inr 1"
    "start_time (network_log recorded_session) = Inr (JTime 10)"
    by (simp_all add: example_defs start_time_def)
  have w: "write_all perf_write_fails (planned_writes 30 recorded_session (JTime 10) 1 1) Map.empty
      = (Some (OSError ''No space left on device''),
         Map.empty(''activity_sessions/s/network_activity.json'' \<mapsto>
           Whole (JList (map JDict (network_log recorded_session)))))"
    by (simp add: planned_writes_def write_file_def perf_write_fails_def session_path_def
          recorded_session_fields)
  note th = finalize_failure_propagates [OF c, of 30 perf_write_fails Map.empty]
  from th [THEN conjunct1]
  have a: "fst (recorder_done 30 perf_write_fails Map.empty recorded_session)
             = Inl (OSError ''No space left on device'')"
    "fst (snd (recorder_done 30 perf_write_fails Map.empty recorded_session))
       = Map.empty(''activity_sessions/s/network_activity.json'' \<mapsto>
           Whole (JList (map JDict (network_log recorded_session))))"
    unfolding w by simp_all
  from th [THEN conjunct2] a(1)
  have "last (logger (snd (snd (recorder_done 30 perf_write_fails Map.empty recorded_session))))
      = (ERROR, ErrorSaving (OSError ''No space left on device''))"
    by blast
  with a c show ?thesis by simp
qed

text \<open>
  Claim C3, as stated: a second finalize with no event in between leaves all four
  artifacts with the content they had. It fails for the summary: its \<open>end_time\<close> is the
  clock reading of the call, so two calls at different times write different summaries.
\<close>

theorem finalize_twice_counterexample:
  "fst first_done = Inr () \<and> fst second_done = Inr () \<and>
   fst (snd second_done) ''activity_sessions/s/session_summary.json''
     \<noteq> fst (snd first_done) ''activity_sessions/s/session_summary.json''"
  by (simp add: first_done_ok second_done_ok)
     (simp add: second_done_def first_done_def done_defs example_defs)

text \<open>
  Claim C3, amended. When two finalize calls with no event in between both return
  normally, the second leaves every file of the session directory as the first left it,
  except that the summary is written again with the \<open>end_time\<close> of the second call and
  all its other fields unchanged; when the two clock readings are equal, nothing changes.
\<close>

theorem finalize_twice:
  assumes "recorder_done t1 io1 fs s = (Inr (), fs1, s1)"
    and "recorder_done t2 io2 fs1 s1 = (Inr (), fs2, s2)"
  shows "\<exists>start rc rsc.
           fs1 (session_path s ''session_summary.json'') = Some (Whole (summary t1 s start rc rsc)) \<and>
           fs2 = fs1(session_path s ''session_summary.json'' \<mapsto> Whole (summary t2 s start rc rsc)) \<and>
           (t2 = t1 \<longrightarrow> fs2 = fs1)"
proof -
  from recorder_done_success [OF assms(1)] obtain rc rsc start where
    a: "count_type ''request'' (network_log s) = Inr rc"
       "count_type ''response'' (network_log s) = Inr rsc"
       "start_time (network_log s) = Inr start"
       "fs1 = saved fs s (summary t1 s start rc rsc)"
       "\<exists>l. s1 = s\<lparr>logger := l\<rparr>"
    by blast
  from recorder_done_success [OF assms(2)] obtain rc' rsc' start' where
    b: "count_type ''request'' (network_log s1) = Inr rc'"
       "count_type ''response'' (network_log s1) = Inr rsc'"
       "start_time (network_log s1) = Inr start'"
       "fs2 = saved fs1 s1 (summary t2 s1 start' rc' rsc')"
    by blast
  from a(5) obtain l where s1: "s1 = s\<lparr>logger := l\<rparr>" by blast
  have same: "rc' = rc" "rsc' = rsc" "start' = start"
    using a(1-3) b(1-3) by (simp_all add: s1)
  have sv: "saved fs1 s1 = saved fs1 s" "summary t2 s1 = summary t2 s"
    by (simp_all add: s1)
  have sp: "fs1 (session_path s ''session_summary.json'') = Some (Whole (summary t1 s start rc rsc))"
    by (simp add: a(4) saved_summary)
  have fs2: "fs2 = fs1(session_path s ''session_summary.json'' \<mapsto> Whole (summary t2 s start rc rsc))"
    by (simp add: b(4) sv same) (simp add: a(4) saved_again)
  have "t2 = t1 \<longrightarrow> fs2 = fs1"
    using sp fs2 by (auto simp: fun_eq_iff)
  with sp fs2 show ?thesis by blast
qed

theorem finalize_twice_witness:
  "fst first_done = Inr () \<and> fst second_done = Inr () \<and>
   (\<exists>start rc rsc.
      fst (snd first_done) (session_path recorded_session ''session_summary.json'')
        = Some (Whole (summary 100 recorded_session start rc rsc)) \<and>
      fst (snd second_done)
        = (fst (snd first_done))(session_path recorded_session ''session_summary.json'' \<mapsto>
             Whole (summary 200 recorded_session start rc rsc)))"
  using finalize_twice [OF first_done_result second_done_result] first_done_ok second_done_ok
  by blast

subsection \<open>Durations\<close>

lemma run_append: "run dec s (xs @ ys) = run dec (run dec s xs) ys"
  by (induction xs arbitrary: s) simp_all

lemma requestheaders_timestamps:
  "request_timestamps (snd (requestheaders t flow s))
     = AList.update (flow_id flow) t (request_timestamps s)"
  by (simp add: requestheaders_def Let_def split: sum.splits)

lemma step_keeps_stamp:
  "\<not> stamps fid e \<Longrightarrow>
   map_of (request_timestamps (step dec e s)) fid = map_of (request_timestamps s) fid"
  by (cases e)
     (simp_all add: configure_def requestheaders_timestamps websocket_message_def
        websocket_end_def update_conv')

lemma run_keeps_stamp:
  "\<forall>e\<in>set evs. \<not> stamps fid e \<Longrightarrow>
   map_of (request_timestamps (run dec s evs)) fid = map_of (request_timestamps s) fid"
  by (induction evs arbitrary: s) (simp_all add: step_keeps_stamp)

lemma requestheaders_stamps:
  "map_of (request_timestamps (snd (requestheaders t0 flow s))) (flow_id flow) = Some t0"
  by (simp add: requestheaders_timestamps update_conv')

lemma response_last_entry:
  "fst (response t flow s) = Inr () \<Longrightarrow>
   map_of (last (network_log (snd (response t flow s)))) ''duration_ms''
     = Some (duration_ms (request_timestamps s) (flow_id flow) t)"
  by (auto simp: response_def Let_def split: sum.splits)

lemma duration_of_backwards:
  "duration_of 5 10 = - (5764607523034235 / 1152921504606846976)"
  by code_simp

text \<open>
  Claim C4, as stated: the duration recorded for a stamped flow is never negative. It
  fails: the two instants are readings of the wall clock, and when the reading at the
  response is earlier than the stamp the recorded duration is negative (here the double
  nearest to -0.005 ms, for a clock that went back by 5 microseconds).
\<close>

theorem negative_duration_counterexample:
  "map_of (last (network_log backwards_session)) ''duration_ms''
     = Some (JFloat (- (5764607523034235 / 1152921504606846976))) \<and>
   - (5764607523034235 / 1152921504606846976) < (0::rat)"
proof -
  have "map_of (last (network_log backwards_session)) ''duration_ms''
      = Some (JFloat (duration_of 5 10))"
    by (simp add: backwards_session_def example_defs)
  then show ?thesis by (simp add: duration_of_backwards)
qed

text \<open>
  Claim C4, amended. When the flow identifier of a response was stamped by a
  request-headers event and not stamped again since, and the response handler returns,
  the recorded duration is the double that \<open>total_seconds() * 1000\<close> gives for the clock
  reading at the response minus the stamped reading: it differs from that difference in
  milliseconds by at most the difference in microseconds times \<open>10^-18\<close>, it is not
  negative when the clock did not read an earlier time at the response, and it is not
  positive when it did. When the flow identifier was never stamped in the session and the
  handler returns, the recorded duration is null. A missing stamp never makes the handler
  raise: it returns unless the level is at least 2 and reading the content of the
  response raises.
\<close>

theorem response_duration:
  "(flow_id flow0 = flow_id flow \<and> (\<forall>e\<in>set mid. \<not> stamps (flow_id flow) e) \<and>
    fst (response t flow (run dec s (pre @ RequestHeaders t0 flow0 # mid))) = Inr () \<longrightarrow>
      map_of (last (network_log
          (run dec s (pre @ RequestHeaders t0 flow0 # mid @ [Response t flow])))) ''duration_ms''
        = Some (JFloat (duration_of t t0)) \<and>
      \<bar>duration_of t t0 - of_int (t - t0) / 1000\<bar> \<le> \<bar>of_int (t - t0)\<bar> / 10 ^ 18 \<and>
      (t0 \<le> t \<longrightarrow> 0 \<le> duration_of t t0) \<and>
      (t \<le> t0 \<longrightarrow> duration_of t t0 \<le> 0)) \<and>
   ((\<forall>e\<in>set evs. \<not> stamps (flow_id flow) e) \<and>
    fst (response t flow (run dec (init lvl name) evs)) = Inr () \<longrightarrow>
      map_of (last (network_log (run dec (init lvl name) (evs @ [Response t flow]))))
          ''duration_ms''
        = Some JNull) \<and>
   (fst (response t flow s) = Inr () \<longleftrightarrow>
      record_level s < 2 \<or> (\<exists>c. content (flow_response flow) = Inr c))"
proof (intro conjI impI)
  assume a: "flow_id flow0 = flow_id flow \<and> (\<forall>e\<in>set mid. \<not> stamps (flow_id flow) e) \<and>
    fst (response t flow (run dec s (pre @ RequestHeaders t0 flow0 # mid))) = Inr ()"
  let ?s1 = "snd (requestheaders t0 flow0 (run dec s pre))"
  have st: "map_of (request_timestamps (run dec ?s1 mid)) (flow_id flow) = Some t0"
    using a run_keeps_stamp [of mid "flow_id flow" dec ?s1] requestheaders_stamps [of t0 flow0]
    by simp
  have r: "run dec s (pre @ RequestHeaders t0 flow0 # mid) = run dec ?s1 mid"
    by (simp add: run_append)
  from a have rt: "fst (response t flow (run dec ?s1 mid)) = Inr ()"
    by (simp add: r)
  have "run dec s (pre @ RequestHeaders t0 flow0 # mid @ [Response t flow])
      = snd (response t flow (run dec ?s1 mid))"
    by (simp add: run_append)
  then show "map_of (last (network_log
          (run dec s (pre @ RequestHeaders t0 flow0 # mid @ [Response t flow])))) ''duration_ms''
        = Some (JFloat (duration_of t t0))"
    using response_last_entry [OF rt] st by (simp add: duration_ms_def)
next
  show "\<bar>duration_of t t0 - of_int (t - t0) / 1000\<bar> \<le> \<bar>of_int (t - t0)\<bar> / 10 ^ 18"
    by (rule duration_of_error)
next
  assume "t0 \<le> t"
  then show "0 \<le> duration_of t t0" using duration_of_sign [of t0 t] by simp
next
  assume "t \<le> t0"
  then show "duration_of t t0 \<le> 0" using duration_of_sign [of t0 t] by simp
next
  assume a: "(\<forall>e\<in>set evs. \<not> stamps (flow_id flow) e) \<and>
    fst (response t flow (run dec (init lvl name) evs)) = Inr ()"
  then have "map_of (request_timestamps (run dec (init lvl name) evs)) (flow_id flow) = None"
    using run_keeps_stamp [of evs "flow_id flow" dec "init lvl name"]
    by (simp add: init_def Let_def)
  then show "map_of (last (network_log (run dec (init lvl name) (evs @ [Response t flow]))))
          ''duration_ms'' = Some JNull"
    using a response_last_entry [of t flow "run dec (init lvl name) evs"]
    by (simp add: run_append duration_ms_def)
next
  show "fst (response t flow s) = Inr () \<longleftrightarrow>
      record_level s < 2 \<or> (\<exists>c. content (flow_response flow) = Inr c)"
    by (rule response_returns_iff)
qed

theorem response_duration_witness:
  "flow_id get_flow = flow_id get_flow \<and>
   \<not> stamps (flow_id get_flow) (Response 15 post_flow) \<and>
   fst (response 30 get_flow
          (run id (init 1 ''s'') ([] @ RequestHeaders 10 get_flow # [Response 15 post_flow])))
     = Inr () \<and>
   map_of (last (network_log (run id (init 1 ''s'')
        ([] @ RequestHeaders 10 get_flow # [Response 15 post_flow] @ [Response 30 get_flow]))))
      ''duration_ms'' = Some (JFloat (duration_of 30 10)) \<and>
   0 \<le> duration_of 30 10 \<and>
   \<not> stamps (flow_id post_flow) (RequestHeaders 10 get_flow) \<and>
   fst (response 30 post_flow (run id (init 1 ''s'') [RequestHeaders 10 get_flow])) = Inr () \<and>
   map_of (last (network_log (run id (init 1 ''s'')
        ([RequestHeaders 10 get_flow] @ [Response 30 post_flow])))) ''duration_ms'' = Some JNull"
proof -
  have h1: "flow_id get_flow = flow_id get_flow \<and>
      (\<forall>e\<in>set [Response 15 post_flow]. \<not> stamps (flow_id get_flow) e) \<and>
      fst (response 30 get_flow
             (run id (init 1 ''s'') ([] @ RequestHeaders 10 get_flow # [Response 15 post_flow])))
        = Inr ()"
    by (simp add: response_returns_iff init_def Let_def)
  have h2: "(\<forall>e\<in>set [RequestHeaders 10 get_flow]. \<not> stamps (flow_id post_flow) e) \<and>
      fst (response 30 post_flow (run id (init 1 ''s'') [RequestHeaders 10 get_flow])) = Inr ()"
    by (simp add: response_returns_iff init_def Let_def get_flow_def post_flow_def)
  from response_duration [where ?flow0.0 = get_flow and flow = get_flow
      and mid = "[Response 15 post_flow]" and dec = id and s = "init 1 ''s''" and pre = "[]"
      and ?t0.0 = 10 and t = 30]
    response_duration [where flow = post_flow and evs = "[RequestHeaders 10 get_flow]"
      and dec = id and lvl = 1 and name = "''s''" and t = 30]
  show ?thesis using h1 h2 by simp
qed

subsection \<open>The performance artifact\<close>

lemma update_not_Nil [simp]: "AList.update k v al \<noteq> []"
  by (cases al) auto

lemma run_session_name [simp]: "session_name (run dec s evs) = session_name s"
proof (induction evs arbitrary: s)
  case Nil
  show ?case by simp
next
  case (Cons e es)
  have "session_name (step dec e s) = session_name s"
    by (cases e) (simp_all add: configure_def websocket_message_def websocket_end_def)
  with Cons show ?case by simp
qed

lemma response_performance_nonempty:
  "performance_metrics (snd (response t flow s)) \<noteq> [] \<longleftrightarrow>
   performance_metrics s \<noteq> [] \<or> (record_level s \<ge> 3 \<and> fst (response t flow s) = Inr ())"
  by (auto simp: response_def Let_def split: sum.splits)

lemma run_performance_nonempty:
  "performance_metrics (run dec s evs) \<noteq> [] \<longleftrightarrow>
   performance_metrics s \<noteq> [] \<or> gated_response dec s evs"
proof (induction evs arbitrary: s)
  case Nil
  show ?case by simp
next
  case (Cons e es)
  show ?case
  proof (cases e)
    case (Response t flow)
    then show ?thesis
      using Cons [of "snd (response t flow s)"]
      by (auto simp: response_performance_nonempty)
  qed (use Cons in \<open>simp_all add: configure_def websocket_message_def websocket_end_def\<close>)
qed

lemma regated_session_fields:
  "record_level regated_session = 3"
  "length (filter (is_kind ''response'') (network_log regated_session)) = 1"
  "performance_metrics regated_session = []"
  by (simp_all add: regated_session_def configure_def example_defs is_kind_def)

lemma regated_done:
  "fst (recorder_done 30 all_ok Map.empty regated_session) = Inr () \<and>
   fst (snd (recorder_done 30 all_ok Map.empty regated_session))
     ''activity_sessions/s/performance_metrics.json'' = None"
  by (simp add: regated_session_def configure_def done_defs example_defs)

text \<open>
  Claim C5, as stated: after finalize the performance artifact is present if and only if
  the level is at least 3 and a response was recorded, also when the level is
  reconfigured between events. It fails: a session that starts at level 3, goes to level
  1 before its only response and back to level 3 afterwards has the level at least 3 at
  the start and at finalize and one response in its log, and no performance artifact.
\<close>

theorem performance_artifact_counterexample:
  "record_level (init 3 ''s'') \<ge> 3 \<and> record_level regated_session \<ge> 3 \<and>
   length (filter (is_kind ''response'') (network_log regated_session)) = 1 \<and>
   fst (recorder_done 30 all_ok Map.empty regated_session) = Inr () \<and>
   fst (snd (recorder_done 30 all_ok Map.empty regated_session))
     ''activity_sessions/s/performance_metrics.json'' = None"
  using regated_done by (simp add: regated_session_fields) (simp add: init_def Let_def log_line_def)

text \<open>
  Claim C5, amended. When finalize returns normally in a session directory that did not
  hold the file before, the performance artifact is present if and only if some response
  of the session was recorded (its handler returned) while the level then in force was
  at least 3.
\<close>

theorem performance_artifact_present:
  assumes "recorder_done now io fs (run dec (init lvl name) evs) = (Inr (), fs', s')"
    and "fs (session_path (init lvl name) ''performance_metrics.json'') = None"
  shows "fs' (session_path (init lvl name) ''performance_metrics.json'') \<noteq> None \<longleftrightarrow>
         gated_response dec (init lvl name) evs"
proof -
  let ?s = "run dec (init lvl name) evs"
  from recorder_done_success [OF assms(1)] obtain summ where
    fs': "fs' = saved fs ?s summ" by blast
  have p: "session_path ?s = session_path (init lvl name)"
    by (simp add: session_path_def fun_eq_iff)
  have "fs' (session_path (init lvl name) ''performance_metrics.json'') \<noteq> None \<longleftrightarrow>
        performance_metrics ?s \<noteq> []"
    using assms(2) by (simp add: fs' saved_def Let_def p)
  also have "\<dots> \<longleftrightarrow> gated_response dec (init lvl name) evs"
    using run_performance_nonempty [of dec "init lvl name" evs]
    by (simp add: init_def Let_def)
  finally show ?thesis .
qed

theorem performance_artifact_present_witness:
  "fst first_done = Inr () \<and>
   Map.empty (session_path (init 3 ''s'') ''performance_metrics.json'') = (None :: artifact option) \<and>
   fst (snd first_done) (session_path (init 3 ''s'') ''performance_metrics.json'') \<noteq> None \<and>
   gated_response id (init 3 ''s'') [RequestHeaders 10 get_flow, Response 20 get_flow]"
proof -
  have r: "recorder_done 100 all_ok Map.empty
             (run id (init 3 ''s'') [RequestHeaders 10 get_flow, Response 20 get_flow])
           = (Inr (), fst (snd first_done), snd (snd first_done))"
    using first_done_result by (simp add: recorded_session_def)
  have e: "Map.empty (session_path (init 3 ''s'') ''performance_metrics.json'')
           = (None :: artifact option)"
    by simp
  have g: "gated_response id (init 3 ''s'') [RequestHeaders 10 get_flow, Response 20 get_flow]"
    by (simp add: response_returns_iff get_flow_def ok_response_def init_def Let_def)
  from performance_artifact_present [OF r e] g first_done_ok e show ?thesis by blast
qed

subsection \<open>The performance-record mapping\<close>

lemma response_performance_keys:
  "fst ` set (performance_metrics (snd (response t flow s)))
     \<subseteq> fst ` set (performance_metrics s) \<union> {url (flow_request flow)}"
  by (auto simp: response_def Let_def dom_update split: sum.splits)

lemma step_performance_keys:
  "fst ` set (performance_metrics (step dec e s))
     \<subseteq> fst ` set (performance_metrics s) \<union> set (response_urls [e])"
proof (cases e)
  case (Response t flow)
  then show ?thesis using response_performance_keys [of t flow s] by simp
qed (simp_all add: configure_def websocket_message_def websocket_end_def)

lemma response_urls_Cons:
  "set (response_urls (e # es)) = set (response_urls [e]) \<union> set (response_urls es)"
  by (cases e) auto

lemma run_performance_keys:
  "fst ` set (performance_metrics (run dec s evs))
     \<subseteq> fst ` set (performance_metrics s) \<union> set (response_urls evs)"
proof (induction evs arbitrary: s)
  case Nil
  show ?case by simp
next
  case (Cons e es)
  have "fst ` set (performance_metrics (run dec (step dec e s) es))
          \<subseteq> fst ` set (performance_metrics (step dec e s)) \<union> set (response_urls es)"
    by (rule Cons.IH)
  also have "\<dots> \<subseteq> (fst ` set (performance_metrics s) \<union> set (response_urls [e]))
                  \<union> set (response_urls es)"
    using step_performance_keys [of dec e s] by blast
  finally show ?case
    by (simp add: response_urls_Cons [of e es] Un_assoc)
qed

lemma step_performance_distinct:
  "distinct (map fst (performance_metrics s)) \<Longrightarrow>
   distinct (map fst (performance_metrics (step dec e s)))"
  by (cases e)
     (auto simp: configure_def response_def websocket_message_def
        websocket_end_def Let_def distinct_update split: sum.splits)

lemma run_performance_distinct:
  "distinct (map fst (performance_metrics s)) \<Longrightarrow>
   distinct (map fst (performance_metrics (run dec s evs)))"
  by (induction evs arbitrary: s) (simp_all add: step_performance_distinct)

lemma run_performance_size:
  assumes "performance_metrics s = []"
  shows "length (performance_metrics (run dec s evs)) \<le> card (set (response_urls evs))"
proof -
  let ?pm = "performance_metrics (run dec s evs)"
  have d: "distinct (map fst ?pm)"
    using assms by (simp add: run_performance_distinct)
  have "length ?pm = length (map fst ?pm)" by simp
  also have "\<dots> = card (set (map fst ?pm))"
    using d by (simp only: distinct_card)
  also have "\<dots> \<le> card (set (response_urls evs))"
    using run_performance_keys [of dec s evs] assms by (intro card_mono) simp_all
  finally show ?thesis .
qed

text \<open>
  A response leaves the record under \<open>u\<close> alone when it is to another URL, when the
  level is below 3, or when its handler raises.
\<close>

lemma response_keeps_record:
  "\<not> (url (flow_request flow) = u \<and> record_level s \<ge> 3 \<and> fst (response t flow s) = Inr ())
   \<Longrightarrow> map_of (performance_metrics (snd (response t flow s))) u
         = map_of (performance_metrics s) u"
  by (auto simp: response_def Let_def update_conv' split: sum.splits)

lemma run_keeps_record:
  "\<not> gated_write dec u s evs \<Longrightarrow>
   map_of (performance_metrics (run dec s evs)) u = map_of (performance_metrics s) u"
proof (induction evs arbitrary: s)
  case Nil
  show ?case by simp
next
  case (Cons e es)
  show ?case
  proof (cases e)
    case (Response t flow)
    with Cons.prems have
      a: "\<not> (url (flow_request flow) = u \<and> record_level s \<ge> 3 \<and>
             fst (response t flow s) = Inr ())"
      and b: "\<not> gated_write dec u (snd (response t flow s)) es"
      by simp_all
    from Cons.IH [OF b] response_keeps_record [OF a] Response show ?thesis by simp
  qed (use Cons in \<open>simp_all add: configure_def websocket_message_def websocket_end_def\<close>)
qed

lemma response_writes_record:
  "record_level s \<ge> 3 \<Longrightarrow> fst (response t flow s) = Inr () \<Longrightarrow>
   map_of (performance_metrics (snd (response t flow s))) (url (flow_request flow))
     = Some (performance_record t (duration_ms (request_timestamps s) (flow_id flow) t) flow)"
  by (auto simp: response_def Let_def update_conv' split: sum.splits)

text \<open>
  Claim C6, as stated: the record under a URL holds the data of the latest response to
  that URL. It fails when the level is reconfigured: a response processed below level 3
  leaves the record of an earlier response to the same URL in place.
\<close>

theorem stale_record_counterexample:
  "map_of (performance_metrics stale_session) ''http://example.com/''
     = Some (performance_record 10 JNull get_flow) \<and>
   url (flow_request post_flow) = ''http://example.com/'' \<and>
   performance_record 10 JNull get_flow \<noteq> performance_record 20 JNull post_flow"
  by (simp add: stale_session_def configure_def example_defs post_flow_def post_request_def
        missing_response_def)

text \<open>
  Claim C6, amended. At every point of a session the mapping has at most as many records
  as there are distinct URLs among the responses processed so far, and the record under
  a URL is the one built from the latest response to that URL that was recorded (its
  handler returned) while the level was at least 3: later responses to the URL that are
  processed below level 3, or whose handler raises, leave it in place.
\<close>

theorem performance_mapping_last_write:
  "length (performance_metrics (run dec (init lvl name) evs)) \<le> card (set (response_urls evs)) \<and>
   (record_level (run dec (init lvl name) pre) \<ge> 3 \<and>
    fst (response t flow (run dec (init lvl name) pre)) = Inr () \<and>
    \<not> gated_write dec (url (flow_request flow))
        (snd (response t flow (run dec (init lvl name) pre))) post \<longrightarrow>
      map_of (performance_metrics (run dec (init lvl name) (pre @ Response t flow # post)))
          (url (flow_request flow))
        = Some (performance_record t
                  (duration_ms (request_timestamps (run dec (init lvl name) pre)) (flow_id flow) t)
                  flow))"
proof (intro conjI impI)
  show "length (performance_metrics (run dec (init lvl name) evs))
          \<le> card (set (response_urls evs))"
    by (rule run_performance_size) (simp add: init_def Let_def)
next
  let ?s = "run dec (init lvl name) pre"
  assume a: "record_level ?s \<ge> 3 \<and> fst (response t flow ?s) = Inr () \<and>
    \<not> gated_write dec (url (flow_request flow)) (snd (response t flow ?s)) post"
  then have "map_of (performance_metrics (run dec (snd (response t flow ?s)) post))
        (url (flow_request flow))
      = map_of (performance_metrics (snd (response t flow ?s))) (url (flow_request flow))"
    by (intro run_keeps_record) simp
  with a show "map_of (performance_metrics (run dec (init lvl name) (pre @ Response t flow # post)))
          (url (flow_request flow))
        = Some (performance_record t
                  (duration_ms (request_timestamps ?s) (flow_id flow) t) flow)"
    by (simp add: run_append response_writes_record)
qed

theorem performance_mapping_last_write_witness:
  "length (performance_metrics
       (run id (init 3 ''s'')
          [Response 10 get_flow, Configure {''record_level''} 1, Response 20 post_flow]))
     \<le> card (set (response_urls
          [Response 10 get_flow, Configure {''record_level''} 1, Response 20 post_flow])) \<and>
   record_level (run id (init 3 ''s'') []) \<ge> 3 \<and>
   fst (response 10 get_flow (run id (init 3 ''s'') [])) = Inr () \<and>
   \<not> gated_write id (url (flow_request get_flow))
       (snd (response 10 get_flow (run id (init 3 ''s'') [])))
       [Configure {''record_level''} 1, Response 20 post_flow] \<and>
   map_of (performance_metrics
       (run id (init 3 ''s'')
          ([] @ Response 10 get_flow # [Configure {''record_level''} 1, Response 20 post_flow])))
       (url (flow_request get_flow))
     = Some (performance_record 10 JNull get_flow)"
proof -
  have lv: "record_level (run id (init 3 ''s'') []) \<ge> 3"
    by (simp add: init_def Let_def)
  have rt: "fst (response 10 get_flow (run id (init 3 ''s'') [])) = Inr ()"
    by (simp add: response_returns_iff get_flow_def ok_response_def)
  have ng: "\<not> gated_write id (url (flow_request get_flow))
       (snd (response 10 get_flow (run id (init 3 ''s'') [])))
       [Configure {''record_level''} 1, Response 20 post_flow]"
    by (simp add: configure_def)
  have d: "duration_ms (request_timestamps (run id (init 3 ''s'') [])) (flow_id get_flow) 10
      = JNull"
    by (simp add: duration_ms_def init_def Let_def)
  from performance_mapping_last_write
    [where dec = id and lvl = 3 and name = "''s''"
       and evs = "[Response 10 get_flow, Configure {''record_level''} 1, Response 20 post_flow]"
       and pre = "[]" and post = "[Configure {''record_level''} 1, Response 20 post_flow]"
       and flow = get_flow and t = 10]
  show ?thesis using lv rt ng by (simp only: d) simp
qed

subsection \<open>Stream messages\<close>



lemma websocket_message_keeps [simp]:
  "record_level (websocket_message dec nows flow s) = record_level s"
  "network_log (websocket_message dec nows flow s) = network_log s"
  "performance_metrics (websocket_message dec nows flow s) = performance_metrics s"
  by (simp_all add: websocket_message_def)










end
